theory Spec2Isabelle
  imports Complex_Main "HOL-Library.Sublist"
begin

text \<open>
  A shallow embedding of the git-hosting provider layer: provider detection and remote URL
  parsing (with the backtracking regular-expression matcher they rest on), the provider
  registry, and the \<open>viewPR\<close> and \<open>viewIssue\<close> operations of the Gitea/Forgejo adapter.
  The definitions come first; the properties proved about them follow, one section per
  topic.
\<close>

section \<open>Strings of the source language\<close>

text \<open>
  A source string is modelled as a \<^typ>\<open>string\<close>: every \<^typ>\<open>char\<close> stands for one
  code unit in the range 0..255 (the Latin-1 block, of which ASCII is the lower half).
  The character classes below are the source language's classes restricted to that range.
\<close>

definition isLineTerminator :: "char \<Rightarrow> bool" where
  "isLineTerminator c = (c = CHR 0x0A \<or> c = CHR 0x0D)"

definition isWhiteSpace :: "char \<Rightarrow> bool" where
  \<comment> \<open>the class \<open>\s\<close>, which is also what \<open>trim\<close> strips: tab, line feed, vertical tab,
      form feed, carriage return, space, no-break space\<close>
  "isWhiteSpace c =
     (c = CHR 0x09 \<or> c = CHR 0x0A \<or> c = CHR 0x0B \<or> c = CHR 0x0C \<or> c = CHR 0x0D \<or>
      c = CHR 0x20 \<or> c = CHR 0xA0)"

definition trim :: "string \<Rightarrow> string" where
  "trim s = rev (dropWhile isWhiteSpace (rev (dropWhile isWhiteSpace s)))"

definition lowerChar :: "char \<Rightarrow> char" where
  "lowerChar c =
     (let n = (of_char c :: nat) in
      if (65 \<le> n \<and> n \<le> 90) \<or> (192 \<le> n \<and> n \<le> 222 \<and> n \<noteq> 215)
      then char_of (n + 32) else c)"

definition toLowerCase :: "string \<Rightarrow> string" where
  "toLowerCase s = map lowerChar s"

fun includesStr :: "string \<Rightarrow> string \<Rightarrow> bool" where
  "includesStr [] pat = (pat = [])"
| "includesStr (x # xs) pat = (prefix pat (x # xs) \<or> includesStr xs pat)"

definition upperAscii :: "char \<Rightarrow> char" where
  "upperAscii c =
     (let n = (of_char c :: nat) in if 97 \<le> n \<and> n \<le> 122 then char_of (n - 32) else c)"

definition testIgnoreCase :: "string \<Rightarrow> string \<Rightarrow> bool" where
  \<comment> \<open>\<open>/pat/i.test(s)\<close> for a pattern of ASCII letters: both sides are canonicalised
      to upper case, and a code unit above 127 never equals an ASCII letter\<close>
  "testIgnoreCase pat s = includesStr (map upperAscii s) (map upperAscii pat)"

section \<open>Provider detection\<close>

datatype ProviderName = GitHub | GitLab | Bitbucket | AzureDevOps | Gitea | Forgejo | Unknown

definition detectProvider :: "string \<Rightarrow> ProviderName" where
  "detectProvider remoteUrl =
     (let url = toLowerCase remoteUrl in
      if includesStr url ''dev.azure.com'' \<or> includesStr url ''ssh.dev.azure.com''
         \<or> includesStr url ''visualstudio.com'' then AzureDevOps
      else if includesStr url ''github.com'' then GitHub
      else if includesStr url ''gitlab.com'' then GitLab
      else if includesStr url ''bitbucket.org'' then Bitbucket
      else if testIgnoreCase ''gitlab'' url then GitLab
      else if testIgnoreCase ''gitea'' url then Gitea
      else if testIgnoreCase ''forgejo'' url then Forgejo
      else Unknown)"

section \<open>Regular expressions with backtracking\<close>

text \<open>
  The five patterns of \<open>parseRemoteUrl\<close> are concatenations of literals, an optional
  literal (\<open>s?\<close>, \<open>(?:\.git)?\<close>), capturing groups around a repeated character class
  (greedy \<open>(c+)\<close> or lazy \<open>(c+?)\<close>) and the end anchor \<open>$\<close>. The matcher is the
  backtracking matcher of the source language: alternatives are tried in priority order
  and the first that lets the rest of the pattern succeed wins.
\<close>

datatype item =
    Lit string
  | OptLit string
  | CapGreedy "char \<Rightarrow> bool"
  | CapLazy "char \<Rightarrow> bool"
  | Eos

definition anyChar :: "char \<Rightarrow> bool" where
  \<comment> \<open>\<open>.\<close>\<close>
  "anyChar c = (\<not> isLineTerminator c)"

definition notSlash :: "char \<Rightarrow> bool" where
  \<comment> \<open>\<open>[^/]\<close>\<close>
  "notSlash c = (c \<noteq> CHR ''/'')"

definition notColon :: "char \<Rightarrow> bool" where
  \<comment> \<open>\<open>[^:]\<close>\<close>
  "notColon c = (c \<noteq> CHR '':'')"

definition notSlashSpace :: "char \<Rightarrow> bool" where
  \<comment> \<open>\<open>[^/\s]\<close>\<close>
  "notSlashSpace c = (c \<noteq> CHR ''/'' \<and> \<not> isWhiteSpace c)"

text \<open>
  \<open>plusGreedy c k s acc\<close> runs \<open>c+\<close> on \<open>s\<close> with \<open>acc\<close> already consumed by the group:
  it takes one more character and prefers to go on repeating; only when that fails does it
  hand the captured text and the rest to the continuation \<open>k\<close>. \<open>plusLazy\<close> asks the
  continuation first.
\<close>

fun plusGreedy :: "(char \<Rightarrow> bool) \<Rightarrow> (string \<Rightarrow> string \<Rightarrow> 'a option) \<Rightarrow> string \<Rightarrow> string \<Rightarrow> 'a option" where
  "plusGreedy c k [] acc = None"
| "plusGreedy c k (x # xs) acc =
     (if c x then
        (case plusGreedy c k xs (acc @ [x]) of
           Some r \<Rightarrow> Some r
         | None \<Rightarrow> k (acc @ [x]) xs)
      else None)"

fun plusLazy :: "(char \<Rightarrow> bool) \<Rightarrow> (string \<Rightarrow> string \<Rightarrow> 'a option) \<Rightarrow> string \<Rightarrow> string \<Rightarrow> 'a option" where
  "plusLazy c k [] acc = None"
| "plusLazy c k (x # xs) acc =
     (if c x then
        (case k (acc @ [x]) xs of
           Some r \<Rightarrow> Some r
         | None \<Rightarrow> plusLazy c k xs (acc @ [x]))
      else None)"

text \<open>\<open>matchHere p s\<close>: the captures of the first way \<open>p\<close> matches a prefix of \<open>s\<close>.\<close>

primrec matchHere :: "item list \<Rightarrow> string \<Rightarrow> string list option" where
  "matchHere [] s = Some []"
| "matchHere (i # p) s =
     (case i of
        Lit l \<Rightarrow> if prefix l s then matchHere p (drop (length l) s) else None
      | OptLit l \<Rightarrow>
          if prefix l s then
            (case matchHere p (drop (length l) s) of
               Some caps \<Rightarrow> Some caps
             | None \<Rightarrow> matchHere p s)
          else matchHere p s
      | CapGreedy c \<Rightarrow> plusGreedy c (\<lambda>w rest. map_option ((#) w) (matchHere p rest)) s []
      | CapLazy c \<Rightarrow> plusLazy c (\<lambda>w rest. map_option ((#) w) (matchHere p rest)) s []
      | Eos \<Rightarrow> if s = [] then matchHere p s else None)"

text \<open>
  \<open>s.match(p)\<close> for a pattern without the global flag: the start positions are tried from
  the left, the first at which the pattern matches wins. The result holds the captures
  (group 1 first).
\<close>

fun matchRe :: "item list \<Rightarrow> string \<Rightarrow> string list option" where
  "matchRe p [] = matchHere p []"
| "matchRe p (x # xs) =
     (case matchHere p (x # xs) of
        Some caps \<Rightarrow> Some caps
      | None \<Rightarrow> matchRe p xs)"

section \<open>Parsing a remote URL\<close>

record RemoteUrlInfo =
  provider :: ProviderName
  host :: string
  owner :: string
  repo :: string

definition azureHttpsRe :: "item list" where
  \<comment> \<open>\<open>/https?:\/\/dev\.azure\.com\/([^/]+)\/([^/]+)\/_git\/([^/\s]+?)(?:\.git)?$/\<close>\<close>
  "azureHttpsRe =
     [Lit ''http'', OptLit ''s'', Lit ''://dev.azure.com/'', CapGreedy notSlash, Lit ''/'',
      CapGreedy notSlash, Lit ''/_git/'', CapLazy notSlashSpace, OptLit ''.git'', Eos]"

definition azureSshRe :: "item list" where
  \<comment> \<open>\<open>/git@ssh\.dev\.azure\.com:v3\/([^/]+)\/([^/]+)\/([^/\s]+?)(?:\.git)?$/\<close>\<close>
  "azureSshRe =
     [Lit ''git@ssh.dev.azure.com:v3/'', CapGreedy notSlash, Lit ''/'',
      CapGreedy notSlash, Lit ''/'', CapLazy notSlashSpace, OptLit ''.git'', Eos]"

definition httpsRe :: "item list" where
  \<comment> \<open>\<open>/https?:\/\/([^/]+)\/(.+?)\/([^/\s]+?)(?:\.git)?$/\<close>\<close>
  "httpsRe =
     [Lit ''http'', OptLit ''s'', Lit ''://'', CapGreedy notSlash, Lit ''/'',
      CapLazy anyChar, Lit ''/'', CapLazy notSlashSpace, OptLit ''.git'', Eos]"

definition sshRe :: "item list" where
  \<comment> \<open>\<open>/git@([^:]+):(.+?)\/([^/\s]+?)(?:\.git)?$/\<close>\<close>
  "sshRe =
     [Lit ''git@'', CapGreedy notColon, Lit '':'',
      CapLazy anyChar, Lit ''/'', CapLazy notSlashSpace, OptLit ''.git'', Eos]"

definition sshUrlRe :: "item list" where
  \<comment> \<open>\<open>/ssh:\/\/git@([^/]+)\/(.+?)\/([^/\s]+?)(?:\.git)?$/\<close>\<close>
  "sshUrlRe =
     [Lit ''ssh://git@'', CapGreedy notSlash, Lit ''/'',
      CapLazy anyChar, Lit ''/'', CapLazy notSlashSpace, OptLit ''.git'', Eos]"

text \<open>
  The branches are tried in the order of the source. The source reads group \<open>i\<close> of a
  match as \<open>match[i]\<close>; here it stands at index \<open>i - 1\<close> of the list of captures.
\<close>

definition parseRemoteUrl :: "string \<Rightarrow> RemoteUrlInfo option" where
  "parseRemoteUrl url =
     (let trimmed = trim url in
      case matchRe azureHttpsRe trimmed of
        Some azureHttpsMatch \<Rightarrow>
          Some \<lparr>provider = AzureDevOps, host = ''dev.azure.com'',
                owner = azureHttpsMatch ! 0 @ ''/'' @ azureHttpsMatch ! 1,
                repo = azureHttpsMatch ! 2\<rparr>
      | None \<Rightarrow>
      (case matchRe azureSshRe trimmed of
        Some azureSshMatch \<Rightarrow>
          Some \<lparr>provider = AzureDevOps, host = ''dev.azure.com'',
                owner = azureSshMatch ! 0 @ ''/'' @ azureSshMatch ! 1,
                repo = azureSshMatch ! 2\<rparr>
      | None \<Rightarrow>
      (case matchRe httpsRe trimmed of
        Some httpsMatch \<Rightarrow>
          Some \<lparr>provider = detectProvider trimmed, host = httpsMatch ! 0,
                owner = httpsMatch ! 1, repo = httpsMatch ! 2\<rparr>
      | None \<Rightarrow>
      (case matchRe sshRe trimmed of
        Some sshMatch \<Rightarrow>
          Some \<lparr>provider = detectProvider trimmed, host = sshMatch ! 0,
                owner = sshMatch ! 1, repo = sshMatch ! 2\<rparr>
      | None \<Rightarrow>
      (case matchRe sshUrlRe trimmed of
        Some sshUrlMatch \<Rightarrow>
          Some \<lparr>provider = detectProvider trimmed, host = sshUrlMatch ! 0,
                owner = sshUrlMatch ! 1, repo = sshUrlMatch ! 2\<rparr>
      | None \<Rightarrow> None)))))"

section \<open>The provider registry\<close>

text \<open>
  The registry is the one piece of module state. An adapter instance is an object: it has
  the class it was constructed from and an identity, the reference \<open>new\<close> returned. The
  state holds the registry variable (\<open>null\<close> until first use) and the next free reference,
  which counts the constructions made so far.
\<close>

datatype adapterClass =
  GitHubProvider | GitLabProvider | BitbucketProvider | AzureDevOpsProvider | GiteaProvider

record adapter =
  cls :: adapterClass
  ref :: nat

record moduleState =
  providerRegistry :: "(ProviderName \<times> adapter) list option"
  nextRef :: nat

definition new :: "adapterClass \<Rightarrow> moduleState \<Rightarrow> adapter \<times> moduleState" where
  "new c st = (\<lparr>cls = c, ref = nextRef st\<rparr>, st\<lparr>nextRef := Suc (nextRef st)\<rparr>)"

definition initRegistry :: "moduleState \<Rightarrow> (ProviderName \<times> adapter) list \<times> moduleState" where
  "initRegistry st =
     (case providerRegistry st of
        Some registry \<Rightarrow> (registry, st)
      | None \<Rightarrow>
          (let (a1, st1) = new GitHubProvider st;
               (a2, st2) = new GitLabProvider st1;
               (a3, st3) = new BitbucketProvider st2;
               (a4, st4) = new AzureDevOpsProvider st3;
               (a5, st5) = new GiteaProvider st4;
               (a6, st6) = new GiteaProvider st5;
               registry = [(GitHub, a1), (GitLab, a2), (Bitbucket, a3), (AzureDevOps, a4),
                           (Gitea, a5), (Forgejo, a6)]
           in (registry, st6\<lparr>providerRegistry := Some registry\<rparr>)))"

definition getProvider :: "ProviderName \<Rightarrow> moduleState \<Rightarrow> adapter option \<times> moduleState" where
  "getProvider name st = (let (registry, st') = initRegistry st in (map_of registry name, st'))"

text \<open>The state after a sequence of \<open>getProvider\<close> calls.\<close>

definition afterCalls :: "ProviderName list \<Rightarrow> moduleState \<Rightarrow> moduleState" where
  "afterCalls names st = foldl (\<lambda>s n. snd (getProvider n s)) st names"

text \<open>The registry that \<open>initRegistry\<close> builds when the next free reference is \<open>r\<close>.\<close>

definition builtRegistry :: "nat \<Rightarrow> (ProviderName \<times> adapter) list" where
  "builtRegistry r =
     [(GitHub, \<lparr>cls = GitHubProvider, ref = r\<rparr>),
      (GitLab, \<lparr>cls = GitLabProvider, ref = r + 1\<rparr>),
      (Bitbucket, \<lparr>cls = BitbucketProvider, ref = r + 2\<rparr>),
      (AzureDevOps, \<lparr>cls = AzureDevOpsProvider, ref = r + 3\<rparr>),
      (Gitea, \<lparr>cls = GiteaProvider, ref = r + 4\<rparr>),
      (Forgejo, \<lparr>cls = GiteaProvider, ref = r + 5\<rparr>)]"

section \<open>The Gitea/Forgejo adapter\<close>

subsection \<open>Values of the source language\<close>

text \<open>
  A number of the source language is a double: a rational, or one of the three special
  values. Only \<open>Number.isInteger\<close> and the comparison with 1 are needed.
\<close>

datatype number = Finite rat | NaN | PosInfinity | NegInfinity

fun Number_isInteger :: "number \<Rightarrow> bool" where
  "Number_isInteger (Finite q) = (of_int (floor q) = q)"
| "Number_isInteger _ = False"

fun lessThanOne :: "number \<Rightarrow> bool" where
  \<comment> \<open>\<open>number < 1\<close>\<close>
  "lessThanOne (Finite q) = (q < 1)"
| "lessThanOne NegInfinity = True"
| "lessThanOne _ = False"

datatype json =
  JNull | JBool bool | JNum rat | JStr string | JArr "json list" | JObj "(string \<times> json) list"

datatype exn = ExecError | SyntaxError | TypeError

text \<open>A value read from parsed JSON is a JSON value or \<open>undefined\<close> (\<open>None\<close>).\<close>

type_synonym jsval = "json option"

fun getProp :: "json \<Rightarrow> string \<Rightarrow> exn + jsval" where
  \<comment> \<open>\<open>data.key\<close>, for the keys the adapter reads: reading a property of \<open>null\<close> throws\<close>
  "getProp JNull k = Inl TypeError"
| "getProp (JObj kvs) k = Inr (map_of kvs k)"
| "getProp _ k = Inr None"

fun getPropOpt :: "jsval \<Rightarrow> string \<Rightarrow> exn + jsval" where
  \<comment> \<open>\<open>v?.key\<close>\<close>
  "getPropOpt None k = Inr None"
| "getPropOpt (Some JNull) k = Inr None"
| "getPropOpt (Some v) k = getProp v k"

definition bindE :: "exn + 'a \<Rightarrow> ('a \<Rightarrow> exn + 'b) \<Rightarrow> exn + 'b" where
  "bindE m f = (case m of Inl e \<Rightarrow> Inl e | Inr x \<Rightarrow> f x)"

fun mapE :: "('a \<Rightarrow> exn + 'b) \<Rightarrow> 'a list \<Rightarrow> exn + 'b list" where
  "mapE f [] = Inr []"
| "mapE f (x # xs) = bindE (f x) (\<lambda>y. bindE (mapE f xs) (\<lambda>ys. Inr (y # ys)))"

fun labelNames :: "jsval \<Rightarrow> exn + jsval list option" where
  \<comment> \<open>\<open>labels?.map(l => l.name)\<close>: only an array has \<open>map\<close>\<close>
  "labelNames None = Inr None"
| "labelNames (Some JNull) = Inr None"
| "labelNames (Some (JArr ls)) = bindE (mapE (\<lambda>l. getProp l ''name'') ls) (\<lambda>ns. Inr (Some ns))"
| "labelNames (Some _) = Inl TypeError"

record PRInfo =
  title :: jsval
  headBranch :: jsval
  baseBranch :: jsval
  url :: jsval
  body :: jsval
  author :: jsval

record IssueInfo =
  issueTitle :: jsval
  issueBody :: jsval
  issueUrl :: jsval
  labels :: "jsval list option"

subsection \<open>The outside world\<close>

text \<open>
  What the adapter cannot decide by itself is a parameter: the outcome of running a
  command (its standard output, or the error thrown for a missing binary, a non-zero exit
  or a timeout), the outcome of \<open>JSON.parse\<close>, \<open>String\<close> on numbers, and the two environment
  variables. Every command run is recorded in a trace, in order.
\<close>

record world =
  execFileSync :: "string \<Rightarrow> string list \<Rightarrow> exn + string"
  JSON_parse :: "string \<Rightarrow> exn + json"
  String :: "number \<Rightarrow> string"
  GITEA_URL :: "string option"
  GITEA_TOKEN :: "string option"

type_synonym call = "string \<times> string list"

definition truthy :: "string option \<Rightarrow> bool" where
  \<comment> \<open>an optional string is falsy when it is \<open>undefined\<close> or empty\<close>
  "truthy v = (case v of None \<Rightarrow> False | Some s \<Rightarrow> s \<noteq> [])"

definition str :: "string option \<Rightarrow> string" where
  \<comment> \<open>interpolation into a template literal\<close>
  "str v = (case v of None \<Rightarrow> ''undefined'' | Some s \<Rightarrow> s)"

subsection \<open>viewPR\<close>

definition prOfCli :: "json \<Rightarrow> exn + PRInfo" where
  "prOfCli data =
     bindE (getProp data ''title'') (\<lambda>t.
     bindE (getProp data ''head_branch'') (\<lambda>h.
     bindE (getProp data ''base_branch'') (\<lambda>b.
     bindE (getProp data ''html_url'') (\<lambda>u.
     bindE (getProp data ''body'') (\<lambda>bd.
     bindE (bindE (getProp data ''user'') (\<lambda>usr. getPropOpt usr ''login'')) (\<lambda>a.
     Inr \<lparr>title = t, headBranch = h, baseBranch = b, url = u, body = bd, author = a\<rparr>))))))"

definition prOfRest :: "json \<Rightarrow> exn + PRInfo" where
  "prOfRest data =
     bindE (getProp data ''title'') (\<lambda>t.
     bindE (bindE (getProp data ''head'') (\<lambda>hd. getPropOpt hd ''ref'')) (\<lambda>hr.
     bindE (if hr = None \<or> hr = Some JNull then getProp data ''head_branch'' else Inr hr) (\<lambda>h.
     bindE (bindE (getProp data ''base'') (\<lambda>bs. getPropOpt bs ''ref'')) (\<lambda>br.
     bindE (if br = None \<or> br = Some JNull then getProp data ''base_branch'' else Inr br) (\<lambda>b.
     bindE (getProp data ''html_url'') (\<lambda>u.
     bindE (getProp data ''body'') (\<lambda>bd.
     bindE (bindE (getProp data ''user'') (\<lambda>usr. getPropOpt usr ''login'')) (\<lambda>a.
     Inr \<lparr>title = t, headBranch = h, baseBranch = b, url = u, body = bd, author = a\<rparr>))))))))"

text \<open>
  The bodies of the two \<open>try\<close> blocks are named: \<open>teaViewPR\<close> is the CLI tier,
  \<open>curlViewPR\<close> the REST tier; \<open>Inl\<close> is an exception thrown inside the block.
\<close>

definition teaPRArgs :: "world \<Rightarrow> number \<Rightarrow> string list" where
  "teaPRArgs w number = [''pr'', ''view'', String w number]"

definition teaViewPR :: "world \<Rightarrow> number \<Rightarrow> exn + PRInfo" where
  "teaViewPR w number =
     bindE (execFileSync w ''tea'' (teaPRArgs w number))
       (\<lambda>raw. bindE (JSON_parse w raw) prOfCli)"

definition curlPRArgs :: "world \<Rightarrow> number \<Rightarrow> string option \<Rightarrow> string option \<Rightarrow> string list" where
  "curlPRArgs w number owner' repo' =
     [''-sS'']
     @ (if truthy (GITEA_TOKEN w) then [''-H'', ''Authorization: token '' @ str (GITEA_TOKEN w)]
        else [])
     @ [str (GITEA_URL w) @ ''/api/v1/repos/'' @ str owner' @ ''/'' @ str repo'
        @ ''/pulls/'' @ String w number]"

definition curlViewPR :: "world \<Rightarrow> number \<Rightarrow> string option \<Rightarrow> string option \<Rightarrow> exn + PRInfo" where
  "curlViewPR w number owner' repo' =
     bindE (execFileSync w ''curl'' (curlPRArgs w number owner' repo'))
       (\<lambda>raw. bindE (JSON_parse w raw) prOfRest)"

definition viewPRviaRest ::
  "world \<Rightarrow> number \<Rightarrow> string option \<Rightarrow> string option \<Rightarrow> (exn + PRInfo option) \<times> call list" where
  "viewPRviaRest w number owner' repo' =
     (let baseUrl = GITEA_URL w in
      if \<not> truthy baseUrl \<or> \<not> truthy owner' \<or> \<not> truthy repo' then (Inr None, [])
      else
        (case curlViewPR w number owner' repo' of
           Inr info \<Rightarrow> Inr (Some info)
         | Inl e \<Rightarrow> Inr None,
         [(''curl'', curlPRArgs w number owner' repo')]))"

definition viewPR ::
  "world \<Rightarrow> number \<Rightarrow> string option \<Rightarrow> string option \<Rightarrow> (exn + PRInfo option) \<times> call list" where
  "viewPR w number owner' repo' =
     (if \<not> Number_isInteger number \<or> lessThanOne number then (Inr None, [])
      else
        (case teaViewPR w number of
           Inr info \<Rightarrow> (Inr (Some info), [(''tea'', teaPRArgs w number)])
         | Inl e \<Rightarrow>
             (let (r, calls) = viewPRviaRest w number owner' repo'
              in (r, (''tea'', teaPRArgs w number) # calls))))"

subsection \<open>viewIssue\<close>

definition issueOf :: "json \<Rightarrow> exn + IssueInfo" where
  "issueOf data =
     bindE (getProp data ''title'') (\<lambda>t.
     bindE (getProp data ''body'') (\<lambda>bd.
     bindE (getProp data ''html_url'') (\<lambda>u.
     bindE (bindE (getProp data ''labels'') labelNames) (\<lambda>ls.
     Inr \<lparr>issueTitle = t, issueBody = bd, issueUrl = u, labels = ls\<rparr>))))"

definition teaIssueArgs :: "world \<Rightarrow> number \<Rightarrow> string list" where
  "teaIssueArgs w number = [''issues'', ''view'', String w number]"

definition teaViewIssue :: "world \<Rightarrow> number \<Rightarrow> exn + IssueInfo" where
  "teaViewIssue w number =
     bindE (execFileSync w ''tea'' (teaIssueArgs w number))
       (\<lambda>raw. bindE (JSON_parse w raw) issueOf)"

definition curlIssueArgs :: "world \<Rightarrow> number \<Rightarrow> string option \<Rightarrow> string option \<Rightarrow> string list" where
  "curlIssueArgs w number owner' repo' =
     [''-sS'', str (GITEA_URL w) @ ''/api/v1/repos/'' @ str owner' @ ''/'' @ str repo'
                 @ ''/issues/'' @ String w number]"

definition curlViewIssue :: "world \<Rightarrow> number \<Rightarrow> string option \<Rightarrow> string option \<Rightarrow> exn + IssueInfo" where
  "curlViewIssue w number owner' repo' =
     bindE (execFileSync w ''curl'' (curlIssueArgs w number owner' repo'))
       (\<lambda>raw. bindE (JSON_parse w raw) issueOf)"

definition viewIssueviaRest ::
  "world \<Rightarrow> number \<Rightarrow> string option \<Rightarrow> string option \<Rightarrow> (exn + IssueInfo option) \<times> call list" where
  "viewIssueviaRest w number owner' repo' =
     (let baseUrl = GITEA_URL w in
      if \<not> truthy baseUrl \<or> \<not> truthy owner' \<or> \<not> truthy repo' then (Inr None, [])
      else
        (case curlViewIssue w number owner' repo' of
           Inr info \<Rightarrow> Inr (Some info)
         | Inl e \<Rightarrow> Inr None,
         [(''curl'', curlIssueArgs w number owner' repo')]))"

definition viewIssue ::
  "world \<Rightarrow> number \<Rightarrow> string option \<Rightarrow> string option \<Rightarrow> (exn + IssueInfo option) \<times> call list" where
  "viewIssue w number owner' repo' =
     (if \<not> Number_isInteger number \<or> lessThanOne number then (Inr None, [])
      else
        (case teaViewIssue w number of
           Inr info \<Rightarrow> (Inr (Some info), [(''tea'', teaIssueArgs w number)])
         | Inl e \<Rightarrow>
             (let (r, calls) = viewIssueviaRest w number owner' repo'
              in (r, (''tea'', teaIssueArgs w number) # calls))))"

section \<open>Notions used in the statements\<close>

subsection \<open>Numbers and example worlds\<close>

text \<open>
  The specification's input condition on \<open>number\<close>: a positive integer.
\<close>

definition isPositiveInteger :: "number \<Rightarrow> bool" where
  "isPositiveInteger n = (\<exists>k::int. 1 \<le> k \<and> n = Finite (of_int k))"

text \<open>A world in which every command fails and nothing is configured.\<close>

definition deadWorld :: world where
  "deadWorld =
     \<lparr>execFileSync = (\<lambda>cmd args. Inl ExecError), JSON_parse = (\<lambda>raw. Inl SyntaxError),
      String = (\<lambda>n. ''7''), GITEA_URL = None, GITEA_TOKEN = None\<rparr>"

text \<open>
  A world without the CLI tool, with a configured server whose answer parses to an object
  with a title.
\<close>

definition restWorld :: world where
  "restWorld =
     \<lparr>execFileSync = (\<lambda>cmd args. if cmd = ''curl'' then Inr ''{}'' else Inl ExecError),
      JSON_parse = (\<lambda>raw. Inr (JObj [(''title'', JStr ''t'')])),
      String = (\<lambda>n. ''7''), GITEA_URL = Some ''https://git.example'', GITEA_TOKEN = None\<rparr>"

text \<open>A world with a configured server that cannot be reached, and no CLI tool.\<close>

definition offlineWorld :: world where
  "offlineWorld = deadWorld\<lparr>GITEA_URL := Some ''https://git.example''\<rparr>"

subsection \<open>Detection keywords\<close>

text \<open>The hostnames and keywords of the detection cascade, in its order.\<close>

definition providerKeywords :: "string list" where
  "providerKeywords =
     [''dev.azure.com'', ''ssh.dev.azure.com'', ''visualstudio.com'', ''github.com'',
      ''gitlab.com'', ''bitbucket.org'', ''gitlab'', ''gitea'', ''forgejo'']"

text \<open>The first step of the cascade tests these three.\<close>

definition azureHosts :: "string list" where
  "azureHosts = [''dev.azure.com'', ''ssh.dev.azure.com'', ''visualstudio.com'']"

text \<open>\<open>urlContains u p\<close>: the whole lower-cased input \<open>u\<close> contains \<open>p\<close>, anywhere.\<close>

definition urlContains :: "string \<Rightarrow> string \<Rightarrow> bool" where
  "urlContains u p = includesStr (toLowerCase u) p"

definition isUpperAscii :: "char \<Rightarrow> bool" where
  "isUpperAscii c = (65 \<le> (of_char c :: nat) \<and> (of_char c :: nat) \<le> 90)"

subsection \<open>Shapes of patterns and of URLs\<close>

text \<open>The number of capturing groups of a pattern.\<close>

fun isCap :: "item \<Rightarrow> bool" where
  "isCap (CapGreedy c) = True"
| "isCap (CapLazy c) = True"
| "isCap _ = False"

definition ncaps :: "item list \<Rightarrow> nat" where
  "ncaps p = length (filter isCap p)"

text \<open>All five patterns end in \<open>([^/\s]+?)(?:\.git)?$\<close>.\<close>

definition repoTail :: "item list" where
  "repoTail = [CapLazy notSlashSpace, OptLit ''.git'', Eos]"

text \<open>The three generic patterns end in \<open>(.+?)\/([^/\s]+?)(?:\.git)?$\<close>.\<close>

definition pathTail :: "item list" where
  "pathTail = CapLazy anyChar # Lit ''/'' # repoTail"

text \<open>
  The generic URL forms of the specification: a host, \<open>k \<ge> 1\<close> owner segments joined by
  slashes, and a final segment.
\<close>

fun joinSlash :: "string list \<Rightarrow> string" where
  "joinSlash [] = []"
| "joinSlash [g] = g"
| "joinSlash (g # gs) = g @ ''/'' @ joinSlash gs"

definition httpsUrl :: "bool \<Rightarrow> string \<Rightarrow> string list \<Rightarrow> string \<Rightarrow> string" where
  "httpsUrl secure h segs final =
     ''http'' @ (if secure then ''s'' else []) @ ''://'' @ h @ ''/'' @ joinSlash segs @ ''/'' @ final"

definition scpUrl :: "string \<Rightarrow> string list \<Rightarrow> string \<Rightarrow> string" where
  "scpUrl h segs final = ''git@'' @ h @ '':'' @ joinSlash segs @ ''/'' @ final"

definition sshUrl :: "string \<Rightarrow> string list \<Rightarrow> string \<Rightarrow> string" where
  "sshUrl h segs final = ''ssh://git@'' @ h @ ''/'' @ joinSlash segs @ ''/'' @ final"

text \<open>A pattern with two capturing groups followed by the repository tail.\<close>

definition isUrlPattern :: "item list \<Rightarrow> bool" where
  "isUrlPattern p = (\<exists>pre. p = pre @ repoTail \<and> ncaps pre = 2)"

section \<open>The canonical inputs\<close>

text \<open>
  C1. \<open>parseRemoteUrl\<close> on the canonical inputs of the specification's table: the deeply
  nested GitLab HTTPS URL gives provider gitlab, host \<open>gitlab.com\<close>, owner \<open>a/b/c\<close>, repo
  \<open>repo\<close>; the Azure DevOps SSH URL gives provider azure-devops, host \<open>dev.azure.com\<close>,
  owner \<open>org/project\<close>, repo \<open>repo\<close>; \<open>not-a-url\<close> and the empty string give no result.
\<close>

theorem parseRemoteUrl_canonical_table:
  "parseRemoteUrl ''https://gitlab.com/a/b/c/repo.git''
     = Some \<lparr>provider = GitLab, host = ''gitlab.com'', owner = ''a/b/c'', repo = ''repo''\<rparr>
   \<and> parseRemoteUrl ''git@ssh.dev.azure.com:v3/org/project/repo''
     = Some \<lparr>provider = AzureDevOps, host = ''dev.azure.com'', owner = ''org/project'',
             repo = ''repo''\<rparr>
   \<and> parseRemoteUrl ''not-a-url'' = None
   \<and> parseRemoteUrl '''' = None"
  by code_simp

section \<open>The registry\<close>

lemma initRegistry_fresh:
  "providerRegistry st = None \<Longrightarrow>
   initRegistry st =
     (builtRegistry (nextRef st),
      st\<lparr>nextRef := nextRef st + 6, providerRegistry := Some (builtRegistry (nextRef st))\<rparr>)"
  by (simp add: initRegistry_def new_def Let_def builtRegistry_def)

lemma initRegistry_built: "providerRegistry st = Some r \<Longrightarrow> initRegistry st = (r, st)"
  by (simp add: initRegistry_def)

lemma getProvider_built: "providerRegistry st = Some r \<Longrightarrow> getProvider n st = (map_of r n, st)"
  by (simp add: getProvider_def initRegistry_built)

lemma getProvider_fresh:
  "providerRegistry st = None \<Longrightarrow> fst (getProvider n st) = map_of (builtRegistry (nextRef st)) n"
  by (simp add: getProvider_def initRegistry_fresh)

lemma afterCalls_built: "providerRegistry st = Some r \<Longrightarrow> afterCalls ns st = st"
  unfolding afterCalls_def by (induction ns arbitrary: st) (simp_all add: getProvider_built)

lemma afterCalls_Cons: "afterCalls (n # ns) st = afterCalls ns (snd (getProvider n st))"
  by (simp add: afterCalls_def)

lemma afterCalls_fresh:
  "providerRegistry st = None \<Longrightarrow> ns \<noteq> [] \<Longrightarrow> afterCalls ns st = snd (initRegistry st)"
  by (cases ns)
     (simp_all add: afterCalls_Cons getProvider_def initRegistry_fresh afterCalls_built)

lemma getProvider_afterCalls:
  assumes "providerRegistry st = None"
  shows "getProvider n (afterCalls ns st) = (fst (getProvider n st), snd (initRegistry st))"
proof (cases ns)
  case Nil
  then show ?thesis by (simp add: afterCalls_def getProvider_def split: prod.splits)
next
  case (Cons a list)
  then have "afterCalls ns st = snd (initRegistry st)"
    using afterCalls_fresh[OF assms] by simp
  then show ?thesis
    using assms by (simp add: initRegistry_fresh getProvider_fresh getProvider_built)
qed

text \<open>
  C10. Starting from a module whose registry has not been built, after any sequence \<open>ns\<close>
  of earlier \<open>getProvider\<close> calls: \<open>getProvider\<close> is absent exactly for \<open>unknown\<close> (so it
  returns an adapter for each of the six registered names); \<open>gitea\<close> and \<open>forgejo\<close> resolve
  to two instances of the same class \<open>GiteaProvider\<close> with different identities; every
  call returns the instance the very first call would return; and the number of adapters
  constructed is six however many calls were made, so no call after the first constructs
  anything.
\<close>

theorem getProvider_registry:
  assumes "providerRegistry st = None"
  shows "(\<forall>name. fst (getProvider name (afterCalls ns st)) = None \<longleftrightarrow> name = Unknown)
    \<and> (\<exists>g f. fst (getProvider Gitea (afterCalls ns st)) = Some g
           \<and> fst (getProvider Forgejo (afterCalls ns st)) = Some f
           \<and> cls g = GiteaProvider \<and> cls f = GiteaProvider \<and> ref g \<noteq> ref f)
    \<and> (\<forall>name. fst (getProvider name (afterCalls ns st)) = fst (getProvider name st))
    \<and> (\<forall>name. nextRef (snd (getProvider name (afterCalls ns st))) = nextRef st + 6)"
proof -
  have a: "\<And>n. getProvider n (afterCalls ns st) = (fst (getProvider n st), snd (initRegistry st))"
    using getProvider_afterCalls[OF assms] by simp
  have b: "\<And>n. fst (getProvider n st) = None \<longleftrightarrow> n = Unknown"
    subgoal for n using assms by (cases n) (simp_all add: getProvider_fresh builtRegistry_def) done
  have c: "fst (getProvider Gitea st) = Some \<lparr>cls = GiteaProvider, ref = nextRef st + 4\<rparr>"
     "fst (getProvider Forgejo st) = Some \<lparr>cls = GiteaProvider, ref = nextRef st + 5\<rparr>"
    using assms by (simp_all add: getProvider_fresh builtRegistry_def)
  show ?thesis
    using assms by (simp add: a b c initRegistry_fresh)
qed

theorem getProvider_registry_witness:
  "providerRegistry \<lparr>providerRegistry = None, nextRef = 0\<rparr> = None
   \<and> fst (getProvider Forgejo (afterCalls [Gitea, GitHub] \<lparr>providerRegistry = None, nextRef = 0\<rparr>))
       = Some \<lparr>cls = GiteaProvider, ref = 5\<rparr>
   \<and> fst (getProvider Gitea (afterCalls [Gitea, GitHub] \<lparr>providerRegistry = None, nextRef = 0\<rparr>))
       = Some \<lparr>cls = GiteaProvider, ref = 4\<rparr>
   \<and> fst (getProvider Unknown (afterCalls [Gitea, GitHub] \<lparr>providerRegistry = None, nextRef = 0\<rparr>))
       = None
   \<and> nextRef (snd (getProvider Gitea
        (afterCalls [Gitea, GitHub] \<lparr>providerRegistry = None, nextRef = 0\<rparr>))) = 6"
  using getProvider_registry[of "\<lparr>providerRegistry = None, nextRef = 0\<rparr>" "[Gitea, GitHub]"]
  by (simp add: getProvider_fresh builtRegistry_def)

section \<open>The Gitea/Forgejo adapter: rejected input and failing tiers\<close>

lemma guard_iff: "(\<not> Number_isInteger n \<or> lessThanOne n) = (\<not> isPositiveInteger n)"
proof (cases n)
  case (Finite q)
  show ?thesis
  proof (cases "of_int (floor q) = q")
    case True
    then obtain k :: int where k: "q = of_int k" by metis
    show ?thesis using Finite k by (auto simp: isPositiveInteger_def)
  next
    case False
    then have "\<And>k::int. q \<noteq> of_int k" by auto
    then show ?thesis using Finite False by (auto simp: isPositiveInteger_def)
  qed
qed (auto simp: isPositiveInteger_def)

text \<open>
  C8. For a number that is not a positive integer (zero, negative, not an integer, or not
  a number at all), and any owner and repo, \<open>viewPR\<close> and \<open>viewIssue\<close> return an absent
  result and the trace of commands run is empty: neither the CLI tier nor the REST tier
  is attempted.
\<close>

theorem gitea_rejects_non_positive_integer:
  "\<not> isPositiveInteger n \<Longrightarrow>
   viewPR w n owner' repo' = (Inr None, []) \<and> viewIssue w n owner' repo' = (Inr None, [])"
  using guard_iff[of n] by (simp add: viewPR_def viewIssue_def)

theorem gitea_rejects_non_positive_integer_witness:
  "\<not> isPositiveInteger (Finite 0) \<and> \<not> isPositiveInteger (Finite (- 1))
   \<and> \<not> isPositiveInteger (Finite (1 / 2))
   \<and> viewPR restWorld (Finite 0) (Some ''o'') (Some ''r'') = (Inr None, [])
   \<and> viewPR restWorld (Finite (- 1)) (Some ''o'') (Some ''r'') = (Inr None, [])
   \<and> viewIssue restWorld (Finite (1 / 2)) (Some ''o'') (Some ''r'') = (Inr None, [])"
proof -
  have h: "\<not> isPositiveInteger (Finite 0)" "\<not> isPositiveInteger (Finite (- 1))"
    "\<not> isPositiveInteger (Finite (1 / 2))"
    using guard_iff[of "Finite 0"] guard_iff[of "Finite (- 1)"] guard_iff[of "Finite (1 / 2)"]
    by simp_all
  show ?thesis
    using h gitea_rejects_non_positive_integer[OF h(1), of restWorld "Some ''o''" "Some ''r''"]
      gitea_rejects_non_positive_integer[OF h(2), of restWorld "Some ''o''" "Some ''r''"]
      gitea_rejects_non_positive_integer[OF h(3), of restWorld "Some ''o''" "Some ''r''"]
    by simp
qed

text \<open>
  C9. When the CLI tier throws and the base URL is unset (or empty) or the owner or the
  repo is missing, \<open>viewPR\<close> and \<open>viewIssue\<close> return an absent result and no \<open>curl\<close>
  command is run: the REST tier is skipped. When both tiers throw, the result is absent
  too. And whatever the world and the arguments, the adapter returns: no exception
  crosses its boundary.
\<close>

theorem gitea_absent_when_tiers_fail:
  "(teaViewPR w n = Inl e \<and> (\<not> truthy (GITEA_URL w) \<or> \<not> truthy owner' \<or> \<not> truthy repo')
      \<longrightarrow> fst (viewPR w n owner' repo') = Inr None
          \<and> ''curl'' \<notin> fst ` set (snd (viewPR w n owner' repo')))
   \<and> (teaViewIssue w n = Inl e \<and> (\<not> truthy (GITEA_URL w) \<or> \<not> truthy owner' \<or> \<not> truthy repo')
      \<longrightarrow> fst (viewIssue w n owner' repo') = Inr None
          \<and> ''curl'' \<notin> fst ` set (snd (viewIssue w n owner' repo')))
   \<and> (teaViewPR w n = Inl e \<and> curlViewPR w n owner' repo' = Inl e'
      \<longrightarrow> fst (viewPR w n owner' repo') = Inr None)
   \<and> (teaViewIssue w n = Inl e \<and> curlViewIssue w n owner' repo' = Inl e'
      \<longrightarrow> fst (viewIssue w n owner' repo') = Inr None)
   \<and> (\<exists>r. fst (viewPR w n owner' repo') = Inr r)
   \<and> (\<exists>r. fst (viewIssue w n owner' repo') = Inr r)"
  by (auto simp: viewPR_def viewIssue_def viewPRviaRest_def viewIssueviaRest_def Let_def
           split: sum.splits)

lemma failing_tiers:
  "teaViewPR deadWorld n = Inl ExecError" "teaViewIssue deadWorld n = Inl ExecError"
  "teaViewPR offlineWorld n = Inl ExecError" "teaViewIssue offlineWorld n = Inl ExecError"
  "curlViewPR offlineWorld n o' r' = Inl ExecError"
  "curlViewIssue offlineWorld n o' r' = Inl ExecError"
  by (simp_all add: teaViewPR_def teaViewIssue_def curlViewPR_def curlViewIssue_def
        deadWorld_def offlineWorld_def bindE_def)

theorem gitea_absent_when_tiers_fail_witness:
  "teaViewPR deadWorld (Finite 7) = Inl ExecError
   \<and> teaViewIssue deadWorld (Finite 7) = Inl ExecError
   \<and> \<not> truthy (GITEA_URL deadWorld)
   \<and> viewPR deadWorld (Finite 7) (Some ''o'') (Some ''r'')
       = (Inr None, [(''tea'', [''pr'', ''view'', ''7''])])
   \<and> viewIssue deadWorld (Finite 7) (Some ''o'') (Some ''r'')
       = (Inr None, [(''tea'', [''issues'', ''view'', ''7''])])
   \<and> truthy (GITEA_URL offlineWorld)
   \<and> teaViewPR offlineWorld (Finite 7) = Inl ExecError
   \<and> curlViewPR offlineWorld (Finite 7) (Some ''o'') (Some ''r'') = Inl ExecError
   \<and> fst (viewPR offlineWorld (Finite 7) (Some ''o'') (Some ''r'')) = Inr None
   \<and> snd (viewPR offlineWorld (Finite 7) (Some ''o'') (Some ''r''))
       = [(''tea'', [''pr'', ''view'', ''7'']),
          (''curl'', [''-sS'', ''https://git.example/api/v1/repos/o/r/pulls/7''])]
   \<and> fst (viewIssue offlineWorld (Finite 7) (Some ''o'') (Some ''r'')) = Inr None"
proof -
  have env: "GITEA_URL deadWorld = None" "GITEA_URL offlineWorld = Some ''https://git.example''"
    "GITEA_TOKEN offlineWorld = None" "String deadWorld = (\<lambda>n. ''7'')"
    "String offlineWorld = (\<lambda>n. ''7'')"
    by (simp_all add: deadWorld_def offlineWorld_def)
  have v: "viewPR deadWorld (Finite 7) (Some ''o'') (Some ''r'')
             = (Inr None, [(''tea'', [''pr'', ''view'', ''7''])])"
    "viewIssue deadWorld (Finite 7) (Some ''o'') (Some ''r'')
             = (Inr None, [(''tea'', [''issues'', ''view'', ''7''])])"
    "snd (viewPR offlineWorld (Finite 7) (Some ''o'') (Some ''r''))
       = [(''tea'', [''pr'', ''view'', ''7'']),
          (''curl'', [''-sS'', ''https://git.example/api/v1/repos/o/r/pulls/7''])]"
    by (simp_all add: viewPR_def viewIssue_def viewPRviaRest_def viewIssueviaRest_def
          failing_tiers env teaPRArgs_def teaIssueArgs_def curlPRArgs_def truthy_def str_def)
  show ?thesis
    using gitea_absent_when_tiers_fail[of deadWorld "Finite 7" ExecError "Some ''o''"
        "Some ''r''" ExecError]
      gitea_absent_when_tiers_fail[of offlineWorld "Finite 7" ExecError "Some ''o''"
        "Some ''r''" ExecError]
    by (simp add: failing_tiers v env truthy_def)
qed

text \<open>
  The model is not one in which the adapter can only fail: with the CLI tool missing and
  the server answering, \<open>viewPR\<close> returns the value read from the REST answer, after one
  \<open>tea\<close> and one \<open>curl\<close> command.
\<close>

lemma viewPR_rest_fallback:
  "viewPR restWorld (Finite 7) (Some ''o'') (Some ''r'')
     = (Inr (Some \<lparr>title = Some (JStr ''t''), headBranch = None, baseBranch = None,
                     url = None, body = None, author = None\<rparr>),
        [(''tea'', [''pr'', ''view'', ''7'']),
         (''curl'', [''-sS'', ''https://git.example/api/v1/repos/o/r/pulls/7''])])"
  by (simp add: viewPR_def viewPRviaRest_def teaViewPR_def curlViewPR_def teaPRArgs_def
        curlPRArgs_def prOfRest_def restWorld_def bindE_def truthy_def str_def)

section \<open>Provider detection: substrings of the lower-cased URL\<close>

lemma includesStr_sublist: "includesStr s pat = sublist pat s"
  by (induction s) (auto simp: sublist_Cons_right)

lemma includesStr_map: "includesStr s pat \<Longrightarrow> includesStr (map f s) (map f pat)"
  by (simp add: includesStr_sublist map_mono_sublist)

text \<open>
  C3. An input that contains both \<open>dev.azure.com\<close> and \<open>github.com\<close> is classified
  azure-devops, never github: the Azure DevOps test comes first in the cascade.
\<close>

theorem detectProvider_azure_before_github:
  assumes "includesStr u ''dev.azure.com''" and "includesStr u ''github.com''"
  shows "detectProvider u = AzureDevOps \<and> detectProvider u \<noteq> GitHub"
proof -
  have "map lowerChar ''dev.azure.com'' = ''dev.azure.com''"
    by (simp add: lowerChar_def)
  then have "includesStr (toLowerCase u) ''dev.azure.com''"
    using includesStr_map[OF assms(1), of lowerChar] by (simp add: toLowerCase_def)
  then show ?thesis by (simp add: detectProvider_def)
qed

theorem detectProvider_azure_before_github_witness:
  "includesStr ''https://dev.azure.com/github.com/x'' ''dev.azure.com''
   \<and> includesStr ''https://dev.azure.com/github.com/x'' ''github.com''
   \<and> detectProvider ''https://dev.azure.com/github.com/x'' = AzureDevOps"
  using detectProvider_azure_before_github[of "''https://dev.azure.com/github.com/x''"]
  by simp

lemma lowerChar_not_upper: "\<not> isUpperAscii (lowerChar c)"
  unfolding lowerChar_def Let_def isUpperAscii_def
  by auto

lemma of_char_upperAscii:
  "(of_char (upperAscii c) :: nat) =
     (if 97 \<le> (of_char c :: nat) \<and> (of_char c :: nat) \<le> 122 then of_char c - 32 else of_char c)"
  by (auto simp: upperAscii_def Let_def)

lemma fold_case_inj:
  fixes m n :: nat
  assumes "\<not> (65 \<le> m \<and> m \<le> 90)" "\<not> (65 \<le> n \<and> n \<le> 90)"
    "(if 97 \<le> m \<and> m \<le> 122 then m - 32 else m) = (if 97 \<le> n \<and> n \<le> 122 then n - 32 else n)"
  shows "m = n"
  using assms by (auto split: if_splits)

lemma upperAscii_inj:
  assumes "\<not> isUpperAscii c" "\<not> isUpperAscii d" "upperAscii c = upperAscii d"
  shows "c = d"
proof -
  have "(of_char (upperAscii c) :: nat) = of_char (upperAscii d)" using assms(3) by simp
  then have "(of_char c :: nat) = of_char d"
    unfolding of_char_upperAscii
    by (rule fold_case_inj[rotated 2]) (use assms(1,2) in \<open>simp_all add: isUpperAscii_def\<close>)
  then show ?thesis by simp
qed

lemma includesStr_upper:
  assumes "\<forall>c\<in>set s. \<not> isUpperAscii c" "\<forall>c\<in>set pat. \<not> isUpperAscii c"
  shows "includesStr (map upperAscii s) (map upperAscii pat) = includesStr s pat"
proof
  assume "includesStr (map upperAscii s) (map upperAscii pat)"
  then obtain xs where xs: "sublist xs s" "map upperAscii pat = map upperAscii xs"
    using sublist_map_rightE[of "map upperAscii pat" upperAscii s]
    by (auto simp: includesStr_sublist)
  have "set xs \<subseteq> set s" using xs(1) by (rule set_mono_sublist)
  then have "inj_on upperAscii (set pat \<union> set xs)"
    using assms by (auto intro!: inj_onI upperAscii_inj)
  then have "pat = xs" using xs(2) by (simp add: inj_on_map_eq_map)
  then show "includesStr s pat" using xs(1) by (simp add: includesStr_sublist)
next
  assume "includesStr s pat"
  then show "includesStr (map upperAscii s) (map upperAscii pat)"
    by (rule includesStr_map)
qed

lemma testIgnoreCase_lower:
  assumes "\<forall>c\<in>set pat. \<not> isUpperAscii c"
  shows "testIgnoreCase pat (toLowerCase u) = includesStr (toLowerCase u) pat"
  unfolding testIgnoreCase_def
  by (rule includesStr_upper) (use assms in \<open>auto simp: toLowerCase_def lowerChar_not_upper\<close>)

lemma selfHosted_tests:
  "testIgnoreCase ''gitlab'' (toLowerCase u) = includesStr (toLowerCase u) ''gitlab''"
  "testIgnoreCase ''gitea'' (toLowerCase u) = includesStr (toLowerCase u) ''gitea''"
  "testIgnoreCase ''forgejo'' (toLowerCase u) = includesStr (toLowerCase u) ''forgejo''"
  by (rule testIgnoreCase_lower, simp add: isUpperAscii_def)+

text \<open>
  C6, as the code has it. The claim reads every test of the cascade as a test of the
  hostname. The code tests the whole lower-cased input: for the URL below the hostname is
  \<open>example.com\<close>, which holds none of the hostnames and keywords, yet the provider is
  github, because the path holds \<open>github.com\<close>.
\<close>

theorem detectProvider_hostname_counterexample:
  "detectProvider ''https://example.com/github.com/repo'' = GitHub
   \<and> map_option host (parseRemoteUrl ''https://example.com/github.com/repo'')
       = Some ''example.com''
   \<and> \<not> list_ex (includesStr ''example.com'') providerKeywords"
  by code_simp

text \<open>
  C6, amended: every step of the cascade tests the whole lower-cased input, not the
  hostname, and the first step that holds decides. The result is azure-devops exactly
  when the input contains one of the three Azure hostnames; github exactly when no earlier
  step holds and it contains \<open>github.com\<close>; gitlab exactly when no earlier step holds and
  it contains \<open>gitlab.com\<close>, or \<open>gitlab\<close> without \<open>bitbucket.org\<close>; bitbucket exactly when
  no earlier step holds and it contains \<open>bitbucket.org\<close>; gitea, then forgejo, exactly
  when no earlier step holds and it contains \<open>gitea\<close>, respectively \<open>forgejo\<close>; and unknown
  exactly when it contains none of the hostnames and keywords, wherever in the input
  (path included) they would stand.
\<close>

theorem detectProvider_whole_url:
  "(detectProvider u = AzureDevOps \<longleftrightarrow> list_ex (urlContains u) azureHosts)
   \<and> (detectProvider u = GitHub \<longleftrightarrow>
        \<not> list_ex (urlContains u) azureHosts \<and> urlContains u ''github.com'')
   \<and> (detectProvider u = GitLab \<longleftrightarrow>
        \<not> list_ex (urlContains u) azureHosts \<and> \<not> urlContains u ''github.com''
        \<and> (urlContains u ''gitlab.com''
             \<or> (urlContains u ''gitlab'' \<and> \<not> urlContains u ''bitbucket.org'')))
   \<and> (detectProvider u = Bitbucket \<longleftrightarrow>
        \<not> list_ex (urlContains u) azureHosts \<and> \<not> urlContains u ''github.com''
        \<and> \<not> urlContains u ''gitlab.com'' \<and> urlContains u ''bitbucket.org'')
   \<and> (detectProvider u = Gitea \<longleftrightarrow>
        \<not> list_ex (urlContains u) azureHosts \<and> \<not> urlContains u ''github.com''
        \<and> \<not> urlContains u ''gitlab.com'' \<and> \<not> urlContains u ''bitbucket.org''
        \<and> \<not> urlContains u ''gitlab'' \<and> urlContains u ''gitea'')
   \<and> (detectProvider u = Forgejo \<longleftrightarrow>
        \<not> list_ex (urlContains u) azureHosts \<and> \<not> urlContains u ''github.com''
        \<and> \<not> urlContains u ''gitlab.com'' \<and> \<not> urlContains u ''bitbucket.org''
        \<and> \<not> urlContains u ''gitlab'' \<and> \<not> urlContains u ''gitea''
        \<and> urlContains u ''forgejo'')
   \<and> (detectProvider u = Unknown \<longleftrightarrow> \<not> list_ex (urlContains u) providerKeywords)"
  by (simp add: detectProvider_def Let_def selfHosted_tests providerKeywords_def
        azureHosts_def urlContains_def)

theorem detectProvider_whole_url_witness:
  "detectProvider ''https://example.com/GitHub.com/repo'' = GitHub
   \<and> urlContains ''https://example.com/GitHub.com/repo'' ''github.com''
   \<and> detectProvider ''https://example.com/gitea/repo.git'' = Gitea
   \<and> urlContains ''https://example.com/gitea/repo.git'' ''gitea''
   \<and> detectProvider ''https://random-host.com/user/repo.git'' = Unknown
   \<and> \<not> list_ex (urlContains ''https://random-host.com/user/repo.git'') providerKeywords"
proof -
  have "detectProvider ''https://example.com/GitHub.com/repo'' = GitHub"
    "detectProvider ''https://example.com/gitea/repo.git'' = Gitea"
    "detectProvider ''https://random-host.com/user/repo.git'' = Unknown"
    by code_simp+
  then show ?thesis
    using detectProvider_whole_url[of "''https://example.com/GitHub.com/repo''"]
      detectProvider_whole_url[of "''https://example.com/gitea/repo.git''"]
      detectProvider_whole_url[of "''https://random-host.com/user/repo.git''"]
    by simp
qed

section \<open>Facts about the matcher\<close>

lemma plusGreedy_Some:
  "plusGreedy c k s acc = Some r \<Longrightarrow>
   \<exists>w rest. s = w @ rest \<and> w \<noteq> [] \<and> (\<forall>x\<in>set w. c x) \<and> k (acc @ w) rest = Some r"
proof (induction s arbitrary: acc)
  case Nil
  then show ?case by simp
next
  case (Cons x xs)
  then have cx: "c x" by (simp split: if_splits)
  show ?case
  proof (cases "plusGreedy c k xs (acc @ [x])")
    case None
    then have "k (acc @ [x]) xs = Some r" using Cons.prems cx by simp
    then show ?thesis using cx by (intro exI[of _ "[x]"] exI[of _ xs]) simp
  next
    case (Some r')
    then have "r' = r" using Cons.prems cx by simp
    then obtain w rest where "xs = w @ rest" "\<forall>x\<in>set w. c x" "k ((acc @ [x]) @ w) rest = Some r"
      using Cons.IH[of "acc @ [x]"] Some by blast
    then show ?thesis using cx by (intro exI[of _ "x # w"] exI[of _ rest]) simp
  qed
qed

lemma plusLazy_Some:
  "plusLazy c k s acc = Some r \<Longrightarrow>
   \<exists>w rest. s = w @ rest \<and> w \<noteq> [] \<and> (\<forall>x\<in>set w. c x) \<and> k (acc @ w) rest = Some r
     \<and> (\<forall>j. 0 < j \<and> j < length w \<longrightarrow> k (acc @ take j s) (drop j s) = None)"
proof (induction s arbitrary: acc)
  case Nil
  then show ?case by simp
next
  case (Cons x xs)
  then have cx: "c x" by (simp split: if_splits)
  show ?case
  proof (cases "k (acc @ [x]) xs")
    case (Some r')
    then have "k (acc @ [x]) xs = Some r" using Cons.prems cx by simp
    then show ?thesis using cx by (intro exI[of _ "[x]"] exI[of _ xs]) simp
  next
    case None
    then have "plusLazy c k xs (acc @ [x]) = Some r" using Cons.prems cx by simp
    then obtain w rest where w: "xs = w @ rest" "\<forall>x\<in>set w. c x"
       "k ((acc @ [x]) @ w) rest = Some r"
       "\<forall>j. 0 < j \<and> j < length w \<longrightarrow> k ((acc @ [x]) @ take j xs) (drop j xs) = None"
      using Cons.IH[of "acc @ [x]"] by blast
    have "k (acc @ take j (x # xs)) (drop j (x # xs)) = None" if "0 < j" "j < length (x # w)" for j
    proof (cases j)
      case 0
      then show ?thesis using that by simp
    next
      case (Suc i)
      show ?thesis
      proof (cases i)
        case 0
        then show ?thesis using Suc None by simp
      next
        case (Suc i')
        then show ?thesis using w(4) that \<open>j = Suc i\<close> by simp
      qed
    qed
    then show ?thesis using cx w(1-3) by (intro exI[of _ "x # w"] exI[of _ rest]) simp
  qed
qed

lemma plusGreedy_maximal:
  "\<forall>x\<in>set w. c x \<Longrightarrow> w \<noteq> [] \<Longrightarrow> rest = [] \<or> \<not> c (hd rest) \<Longrightarrow> k (acc @ w) rest = Some r
   \<Longrightarrow> plusGreedy c k (w @ rest) acc = Some r"
proof (induction w arbitrary: acc)
  case Nil
  then show ?case by simp
next
  case (Cons x w)
  show ?case
  proof (cases "w = []")
    case True
    have "plusGreedy c k rest (acc @ [x]) = None"
      using Cons.prems(3) by (cases rest) auto
    then show ?thesis using Cons.prems True by simp
  next
    case False
    then have "plusGreedy c k (w @ rest) (acc @ [x]) = Some r"
      using Cons.IH[of "acc @ [x]"] Cons.prems by simp
    then show ?thesis using Cons.prems by simp
  qed
qed

lemma plusLazy_first:
  "\<forall>x\<in>set w. c x \<Longrightarrow> w \<noteq> [] \<Longrightarrow> k (acc @ w) rest = Some r
   \<Longrightarrow> (\<forall>j. 0 < j \<and> j < length w \<longrightarrow> k (acc @ take j w) (drop j w @ rest) = None)
   \<Longrightarrow> plusLazy c k (w @ rest) acc = Some r"
proof (induction w arbitrary: acc)
  case Nil
  then show ?case by simp
next
  case (Cons x w)
  show ?case
  proof (cases "w = []")
    case True
    then show ?thesis using Cons.prems by simp
  next
    case False
    have "k (acc @ [x]) (w @ rest) = None"
      using Cons.prems(4)[rule_format, of 1] False by simp
    moreover have "plusLazy c k (w @ rest) (acc @ [x]) = Some r"
    proof (rule Cons.IH)
      show "\<forall>j. 0 < j \<and> j < length w \<longrightarrow> k ((acc @ [x]) @ take j w) (drop j w @ rest) = None"
      proof (intro allI impI)
        fix j assume "0 < j \<and> j < length w"
        then show "k ((acc @ [x]) @ take j w) (drop j w @ rest) = None"
          using Cons.prems(4)[rule_format, of "Suc j"] by simp
      qed
    qed (use Cons.prems False in simp_all)
    ultimately show ?thesis using Cons.prems by simp
  qed
qed

lemma optGit_eos:
  "matchHere [OptLit ''.git'', Eos] t = (if t = [] \<or> t = ''.git'' then Some [] else None)"
proof (cases "prefix ''.git'' t")
  case True
  then obtain r where "t = ''.git'' @ r" by (auto simp: prefix_def)
  then show ?thesis by auto
next
  case False
  then show ?thesis by auto
qed


lemma repoTail_Some:
  assumes "matchHere repoTail t = Some caps"
  shows "\<exists>w rest. t = w @ rest \<and> w \<noteq> [] \<and> (\<forall>x\<in>set w. notSlashSpace x)
           \<and> (rest = [] \<or> rest = ''.git'') \<and> caps = [w]
           \<and> (\<forall>j. 0 < j \<and> j < length w \<longrightarrow> drop j t \<noteq> ''.git'')"
proof -
  let ?k = "\<lambda>w rest. map_option ((#) w) (matchHere [OptLit ''.git'', Eos] rest)"
  have "plusLazy notSlashSpace ?k t [] = Some caps"
    using assms by (simp add: repoTail_def)
  then obtain w rest where w: "t = w @ rest" "w \<noteq> []" "\<forall>x\<in>set w. notSlashSpace x"
      "?k ([] @ w) rest = Some caps"
      "\<forall>j. 0 < j \<and> j < length w \<longrightarrow> ?k ([] @ take j t) (drop j t) = None"
    using plusLazy_Some[of notSlashSpace ?k t "[]" caps] by blast
  have r: "(rest = [] \<or> rest = ''.git'') \<and> caps = [w]"
    using w(4) unfolding optGit_eos by (auto split: if_splits)
  have "drop j t \<noteq> ''.git''" if "0 < j \<and> j < length w" for j
    using w(5)[rule_format, OF that] unfolding optGit_eos by (auto split: if_splits)
  then show ?thesis using w(1-3) r by blast
qed

lemma repoTail_match:
  assumes "nm \<noteq> []" "\<forall>x\<in>set nm. notSlashSpace x"
    and "sfx = ''.git'' \<or> (sfx = [] \<and> \<not> suffix ''.git'' nm)"
  shows "matchHere repoTail (nm @ sfx) = Some [nm]"
proof -
  let ?k = "\<lambda>w rest. map_option ((#) w) (matchHere [OptLit ''.git'', Eos] rest)"
  have "plusLazy notSlashSpace ?k (nm @ sfx) [] = Some [nm]"
  proof (rule plusLazy_first)
    show "?k ([] @ nm) sfx = Some [nm]"
      using assms(3) unfolding optGit_eos by auto
    show "\<forall>j. 0 < j \<and> j < length nm \<longrightarrow> ?k ([] @ take j nm) (drop j nm @ sfx) = None"
    proof (intro allI impI)
      fix j assume j: "0 < j \<and> j < length nm"
      then have ne: "drop j nm \<noteq> []" by simp
      have "drop j nm @ sfx \<noteq> ''.git''"
      proof
        assume e: "drop j nm @ sfx = ''.git''"
        show False
        proof (cases "sfx = ''.git''")
          case True
          then show ?thesis using e ne by simp
        next
          case False
          then have "sfx = []" "\<not> suffix ''.git'' nm" using assms(3) by auto
          then have "drop j nm = ''.git''" using e by simp
          then have "suffix ''.git'' nm" by (metis suffix_drop)
          then show ?thesis using \<open>\<not> suffix ''.git'' nm\<close> by simp
        qed
      qed
      then show "?k ([] @ take j nm) (drop j nm @ sfx) = None"
        unfolding optGit_eos using ne by simp
    qed
  qed (use assms in simp_all)
  then show ?thesis by (simp add: repoTail_def)
qed

lemma matchHere_split:
  "matchHere (p @ q) s = Some caps \<Longrightarrow>
   \<exists>s' c1 c2. suffix s' s \<and> caps = c1 @ c2 \<and> matchHere q s' = Some c2
      \<and> length c1 = ncaps p \<and> (\<forall>w\<in>set c1. w \<noteq> [])"
proof (induction p arbitrary: s caps)
  case Nil
  then show ?case by (intro exI[of _ s] exI[of _ "[]"] exI[of _ caps]) (simp add: ncaps_def)
next
  case (Cons i p)
  have step: "\<exists>s' c1 c2. suffix s' s \<and> caps' = c1 @ c2 \<and> matchHere q s' = Some c2
      \<and> length c1 = ncaps p \<and> (\<forall>w\<in>set c1. w \<noteq> [])"
    if m: "matchHere (p @ q) t = Some caps'" and st: "suffix t s" for t caps'
  proof -
    obtain s' c1 c2 where h: "suffix s' t" "caps' = c1 @ c2" "matchHere q s' = Some c2"
      "length c1 = ncaps p" "\<forall>w\<in>set c1. w \<noteq> []"
      using Cons.IH[OF m] by blast
    have "suffix s' s" using h(1) st by (rule suffix_order.order_trans)
    then show ?thesis using h(2-5) by blast
  qed
  show ?case
  proof (cases i)
    case (Lit l)
    then have "matchHere (p @ q) (drop (length l) s) = Some caps"
      using Cons.prems by (simp split: if_splits)
    from step[OF this] show ?thesis using Lit by (simp add: ncaps_def suffix_drop)
  next
    case (OptLit l)
    then have "matchHere (p @ q) (drop (length l) s) = Some caps \<or> matchHere (p @ q) s = Some caps"
      using Cons.prems by (simp split: if_splits option.splits)
    then show ?thesis using step[of "drop (length l) s" caps] step[of s caps] OptLit
      by (auto simp: ncaps_def suffix_drop)
  next
    case (CapGreedy c)
    then obtain w rest where w: "s = w @ rest" "w \<noteq> []"
       "map_option ((#) w) (matchHere (p @ q) rest) = Some caps"
      using Cons.prems plusGreedy_Some[of c "\<lambda>w rest. map_option ((#) w) (matchHere (p @ q) rest)" s "[]" caps]
      by auto
    then obtain caps' where c': "matchHere (p @ q) rest = Some caps'" "caps = w # caps'" by auto
    from step[OF c'(1)] w(1) obtain s' c1 c2 where "suffix s' s" "caps' = c1 @ c2"
      "matchHere q s' = Some c2" "length c1 = ncaps p" "\<forall>w\<in>set c1. w \<noteq> []"
      by (auto simp: suffix_def)
    then show ?thesis using c'(2) w(2) CapGreedy
      by (intro exI[of _ s'] exI[of _ "w # c1"] exI[of _ c2]) (simp add: ncaps_def)
  next
    case (CapLazy c)
    then obtain w rest where w: "s = w @ rest" "w \<noteq> []"
       "map_option ((#) w) (matchHere (p @ q) rest) = Some caps"
      using Cons.prems plusLazy_Some[of c "\<lambda>w rest. map_option ((#) w) (matchHere (p @ q) rest)" s "[]" caps]
      by auto
    then obtain caps' where c': "matchHere (p @ q) rest = Some caps'" "caps = w # caps'" by auto
    from step[OF c'(1)] w(1) obtain s' c1 c2 where "suffix s' s" "caps' = c1 @ c2"
      "matchHere q s' = Some c2" "length c1 = ncaps p" "\<forall>w\<in>set c1. w \<noteq> []"
      by (auto simp: suffix_def)
    then show ?thesis using c'(2) w(2) CapLazy
      by (intro exI[of _ s'] exI[of _ "w # c1"] exI[of _ c2]) (simp add: ncaps_def)
  next
    case Eos
    then have "matchHere (p @ q) s = Some caps"
      using Cons.prems by (simp split: if_splits)
    from step[OF this] show ?thesis using Eos by (simp add: ncaps_def)
  qed
qed

lemma matchRe_Some: "matchRe p s = Some caps \<Longrightarrow> \<exists>s'. suffix s' s \<and> matchHere p s' = Some caps"
proof (induction s)
  case Nil
  then show ?case by simp
next
  case (Cons x xs)
  show ?case
  proof (cases "matchHere p (x # xs)")
    case None
    then have "matchRe p xs = Some caps" using Cons.prems by simp
    then show ?thesis using Cons.IH by (auto simp: suffix_Cons)
  next
    case (Some a)
    then show ?thesis using Cons.prems by auto
  qed
qed

lemma matchRe_here: "matchHere p s = Some caps \<Longrightarrow> matchRe p s = Some caps"
  by (cases s) simp_all

lemma length_two: "length xs = 2 \<Longrightarrow> \<exists>a b. xs = [a, b]"
proof -
  assume l: "length xs = 2"
  then obtain a ys where xs: "xs = a # ys" by (cases xs) auto
  then obtain b zs where ys: "ys = b # zs" using l by (cases ys) auto
  then have "zs = []" using l xs by simp
  then show ?thesis using xs ys by simp
qed

text \<open>What a match of a pattern ending in repoTail looks like.\<close>

lemma repo_pattern_Some:
  assumes "matchRe (pre @ repoTail) s = Some caps" "ncaps pre = 2"
  shows "\<exists>a b w rest. caps = [a, b, w] \<and> a \<noteq> [] \<and> b \<noteq> [] \<and> w \<noteq> []
           \<and> (\<forall>x\<in>set w. notSlashSpace x) \<and> (rest = [] \<or> rest = ''.git'')
           \<and> suffix (w @ rest) s
           \<and> (\<forall>j. 0 < j \<and> j < length w \<longrightarrow> drop j (w @ rest) \<noteq> ''.git'')"
proof -
  obtain s1 where s1: "suffix s1 s" "matchHere (pre @ repoTail) s1 = Some caps"
    using matchRe_Some[OF assms(1)] by blast
  obtain s' c1 c2 where sp: "suffix s' s1" "caps = c1 @ c2" "matchHere repoTail s' = Some c2"
     "length c1 = ncaps pre" "\<forall>w\<in>set c1. w \<noteq> []"
    using matchHere_split[OF s1(2)] by blast
  obtain w rest where w: "s' = w @ rest" "w \<noteq> []" "\<forall>x\<in>set w. notSlashSpace x"
     "rest = [] \<or> rest = ''.git''" "c2 = [w]"
     "\<forall>j. 0 < j \<and> j < length w \<longrightarrow> drop j s' \<noteq> ''.git''"
    using repoTail_Some[OF sp(3)] by blast
  obtain a b where ab: "c1 = [a, b]"
    using sp(4) assms(2) length_two[of c1] by auto
  have ne: "a \<noteq> []" "b \<noteq> []" using sp(5) ab by simp_all
  have "suffix s' s" using sp(1) s1(1) by (rule suffix_order.order_trans)
  then have sf: "suffix (w @ rest) s" using w(1) by simp
  have mn: "\<forall>j. 0 < j \<and> j < length w \<longrightarrow> drop j (w @ rest) \<noteq> ''.git''"
    using w(6) unfolding w(1) .
  have cp: "caps = [a, b, w]" using sp(2) ab w(5) by simp
  show ?thesis
    using cp ne w(2) w(3) w(4) sf mn by blast
qed

lemma patterns_split:
  "azureHttpsRe = [Lit ''http'', OptLit ''s'', Lit ''://dev.azure.com/'', CapGreedy notSlash,
      Lit ''/'', CapGreedy notSlash, Lit ''/_git/''] @ repoTail"
  "azureSshRe = [Lit ''git@ssh.dev.azure.com:v3/'', CapGreedy notSlash, Lit ''/'',
      CapGreedy notSlash, Lit ''/''] @ repoTail"
  "httpsRe = [Lit ''http'', OptLit ''s'', Lit ''://'', CapGreedy notSlash, Lit ''/'',
      CapLazy anyChar, Lit ''/''] @ repoTail"
  "sshRe = [Lit ''git@'', CapGreedy notColon, Lit '':'', CapLazy anyChar, Lit ''/''] @ repoTail"
  "sshUrlRe = [Lit ''ssh://git@'', CapGreedy notSlash, Lit ''/'', CapLazy anyChar, Lit ''/'']
      @ repoTail"
  by (simp_all add: azureHttpsRe_def azureSshRe_def httpsRe_def sshRe_def sshUrlRe_def repoTail_def)

lemma isUrlPattern_all:
  "isUrlPattern azureHttpsRe" "isUrlPattern azureSshRe" "isUrlPattern httpsRe"
  "isUrlPattern sshRe" "isUrlPattern sshUrlRe"
  unfolding isUrlPattern_def
  by (rule exI, rule conjI, rule patterns_split, simp add: ncaps_def)+

lemma url_pattern_Some:
  assumes "isUrlPattern p" "matchRe p s = Some caps"
  shows "\<exists>a b w rest. caps = [a, b, w] \<and> a \<noteq> [] \<and> b \<noteq> [] \<and> w \<noteq> []
           \<and> (\<forall>x\<in>set w. notSlashSpace x) \<and> (rest = [] \<or> rest = ''.git'')
           \<and> suffix (w @ rest) s
           \<and> (\<forall>j. 0 < j \<and> j < length w \<longrightarrow> drop j (w @ rest) \<noteq> ''.git'')"
  using assms repo_pattern_Some unfolding isUrlPattern_def by blast

section \<open>What a successful parse looks like\<close>

lemma parseRemoteUrl_Some:
  assumes "parseRemoteUrl u = Some r"
  shows "\<exists>p caps. isUrlPattern p \<and> matchRe p (trim u) = Some caps \<and> repo r = caps ! 2
     \<and> (host r = ''dev.azure.com'' \<or> host r = caps ! 0)
     \<and> (owner r = caps ! 0 @ ''/'' @ caps ! 1 \<or> owner r = caps ! 1)"
proof -
  have "\<exists>p \<in> {azureHttpsRe, azureSshRe, httpsRe, sshRe, sshUrlRe}.
     \<exists>caps. matchRe p (trim u) = Some caps \<and> repo r = caps ! 2
     \<and> (host r = ''dev.azure.com'' \<or> host r = caps ! 0)
     \<and> (owner r = caps ! 0 @ ''/'' @ caps ! 1 \<or> owner r = caps ! 1)"
    using assms unfolding parseRemoteUrl_def Let_def
    by (auto split: option.splits)
  then show ?thesis using isUrlPattern_all by blast
qed

text \<open>
  C7. For every input, \<open>parseRemoteUrl\<close> returns either no result or a result whose host,
  owner and repo are all non-empty: every capturing group of the five patterns repeats
  its character class at least once.
\<close>

theorem parseRemoteUrl_fully_populated:
  "parseRemoteUrl u = None
   \<or> (\<exists>r. parseRemoteUrl u = Some r \<and> host r \<noteq> [] \<and> owner r \<noteq> [] \<and> repo r \<noteq> [])"
proof (cases "parseRemoteUrl u")
  case None
  then show ?thesis by simp
next
  case (Some r)
  then obtain p caps where p: "isUrlPattern p" "matchRe p (trim u) = Some caps"
     "repo r = caps ! 2" "host r = ''dev.azure.com'' \<or> host r = caps ! 0"
     "owner r = caps ! 0 @ ''/'' @ caps ! 1 \<or> owner r = caps ! 1"
    using parseRemoteUrl_Some by blast
  obtain a b w where "caps = [a, b, w]" "a \<noteq> []" "b \<noteq> []" "w \<noteq> []"
    using url_pattern_Some[OF p(1,2)] by blast
  then have "host r \<noteq> [] \<and> owner r \<noteq> [] \<and> repo r \<noteq> []"
    using p(3-5) by auto
  then show ?thesis using Some by simp
qed

theorem parseRemoteUrl_fully_populated_witness:
  "parseRemoteUrl ''not-a-url'' = None
   \<and> (\<exists>r. parseRemoteUrl ''git@github.com:user/repo.git'' = Some r
          \<and> host r \<noteq> [] \<and> owner r \<noteq> [] \<and> repo r \<noteq> [])"
proof -
  have e: "parseRemoteUrl ''not-a-url'' = None"
    "parseRemoteUrl ''git@github.com:user/repo.git''
       = Some \<lparr>provider = GitHub, host = ''github.com'', owner = ''user'', repo = ''repo''\<rparr>"
    by code_simp+
  show ?thesis
    using parseRemoteUrl_fully_populated[of "''git@github.com:user/repo.git''"] e by simp
qed

section \<open>The \<open>.git\<close> suffix\<close>

text \<open>
  C4, as the code has it. The pattern strips one trailing \<open>.git\<close>, and only when
  something is left before it: a final segment \<open>repo.git.git\<close> gives the repo \<open>repo.git\<close>,
  and a final segment \<open>.git\<close> gives the repo \<open>.git\<close>. Both end in \<open>.git\<close>.
\<close>

theorem parseRemoteUrl_git_suffix_counterexample:
  "parseRemoteUrl ''https://github.com/user/repo.git.git''
     = Some \<lparr>provider = GitHub, host = ''github.com'', owner = ''user'', repo = ''repo.git''\<rparr>
   \<and> suffix ''.git'' ''repo.git''
   \<and> parseRemoteUrl ''https://github.com/user/.git''
     = Some \<lparr>provider = GitHub, host = ''github.com'', owner = ''user'', repo = ''.git''\<rparr>"
  by code_simp

text \<open>
  C4, amended: when \<open>parseRemoteUrl\<close> succeeds, the trimmed input ends in the repo or in
  the repo followed by one \<open>.git\<close>; and the repo ends in \<open>.git\<close> only if it is \<open>.git\<close>
  itself or the trimmed input ends in \<open>.git.git\<close>.
\<close>

theorem parseRemoteUrl_git_suffix:
  assumes "parseRemoteUrl u = Some r"
  shows "(suffix (repo r) (trim u) \<or> suffix (repo r @ ''.git'') (trim u))
         \<and> (suffix ''.git'' (repo r) \<longrightarrow> repo r = ''.git'' \<or> suffix ''.git.git'' (trim u))"
proof -
  obtain p caps where p: "isUrlPattern p" "matchRe p (trim u) = Some caps" "repo r = caps ! 2"
    using parseRemoteUrl_Some[OF assms(1)] by blast
  obtain a b w rest where w: "caps = [a, b, w]" "rest = [] \<or> rest = ''.git''"
     "suffix (w @ rest) (trim u)"
     "\<forall>j. 0 < j \<and> j < length w \<longrightarrow> drop j (w @ rest) \<noteq> ''.git''"
    using url_pattern_Some[OF p(1,2)] by blast
  have rw: "repo r = w" using p(3) w(1) by simp
  have first: "suffix (repo r) (trim u) \<or> suffix (repo r @ ''.git'') (trim u)"
    using w(2,3) rw by auto
  have "repo r = ''.git'' \<or> suffix ''.git.git'' (trim u)" if "suffix ''.git'' (repo r)"
  proof -
    have "suffix ''.git'' w" using that rw by simp
    then obtain y where y: "w = y @ ''.git''" by (auto simp: suffix_def)
    show ?thesis
    proof (cases "y = []")
      case True
      then show ?thesis using rw y by simp
    next
      case False
      then have "drop (length y) (w @ rest) \<noteq> ''.git''"
        using w(4)[rule_format, of "length y"] y by simp
      then have "rest = ''.git''" using w(2) y by auto
      then have "suffix (y @ ''.git.git'') (trim u)" using w(3) y by simp
      then have "suffix ''.git.git'' (trim u)"
        by (meson suffix_order.order_trans suffix_append suffixI suffix_order.order_refl)
      then show ?thesis by simp
    qed
  qed
  then show ?thesis using first by simp
qed

theorem parseRemoteUrl_git_suffix_witness:
  "parseRemoteUrl ''https://github.com/user/repo.git.git''
     = Some \<lparr>provider = GitHub, host = ''github.com'', owner = ''user'', repo = ''repo.git''\<rparr>
   \<and> suffix ''.git'' ''repo.git''
   \<and> suffix ''.git.git'' (trim ''https://github.com/user/repo.git.git'')
   \<and> parseRemoteUrl ''https://github.com/user/repo.git''
     = Some \<lparr>provider = GitHub, host = ''github.com'', owner = ''user'', repo = ''repo''\<rparr>
   \<and> suffix (''repo'' @ ''.git'') (trim ''https://github.com/user/repo.git'')"
proof -
  have e: "parseRemoteUrl ''https://github.com/user/repo.git.git''
     = Some \<lparr>provider = GitHub, host = ''github.com'', owner = ''user'', repo = ''repo.git''\<rparr>"
    "parseRemoteUrl ''https://github.com/user/repo.git''
     = Some \<lparr>provider = GitHub, host = ''github.com'', owner = ''user'', repo = ''repo''\<rparr>"
    by code_simp+
  have t: "\<not> suffix ''repo'' (trim ''https://github.com/user/repo.git'')"
    and s: "suffix ''.git'' ''repo.git''"
    by code_simp+
  have c1: "suffix ''.git.git'' (trim ''https://github.com/user/repo.git.git'')"
    using parseRemoteUrl_git_suffix[OF e(1)] s by simp
  have c2: "suffix (''repo'' @ ''.git'') (trim ''https://github.com/user/repo.git'')"
    using parseRemoteUrl_git_suffix[OF e(2)] t by simp
  show ?thesis
    using e(1) s c1 e(2) c2 by blast
qed

section \<open>Surrounding whitespace and a trailing slash\<close>

lemma trim_left: "\<forall>x\<in>set a. isWhiteSpace x \<Longrightarrow> trim (a @ s) = trim s"
  by (simp add: trim_def dropWhile_append2)

lemma trim_right:
  assumes "\<forall>x\<in>set b. isWhiteSpace x"
  shows "trim (s @ b) = trim s"
proof (cases "\<forall>x\<in>set s. isWhiteSpace x")
  case True
  then have e: "dropWhile isWhiteSpace (s @ b) = []" "dropWhile isWhiteSpace s = []"
    using assms by auto
  show ?thesis unfolding trim_def e by simp
next
  case False
  then obtain x where "x \<in> set s" "\<not> isWhiteSpace x" by blast
  then have e: "dropWhile isWhiteSpace (s @ b) = dropWhile isWhiteSpace s @ b"
    by (simp add: dropWhile_append1)
  have "dropWhile isWhiteSpace (rev b @ rev (dropWhile isWhiteSpace s))
          = dropWhile isWhiteSpace (rev (dropWhile isWhiteSpace s))"
    by (rule dropWhile_append2) (use assms in simp)
  then show ?thesis unfolding trim_def e by simp
qed

lemma trim_slash: "trim (s @ ''/'') = dropWhile isWhiteSpace s @ ''/''"
proof -
  have ns: "\<not> isWhiteSpace CHR ''/''" by (simp add: isWhiteSpace_def)
  have "dropWhile isWhiteSpace (s @ ''/'') = dropWhile isWhiteSpace s @ ''/''"
    using ns by (induction s) auto
  then show ?thesis using ns by (simp add: trim_def)
qed

lemma url_pattern_slash:
  assumes "isUrlPattern p"
  shows "matchRe p (t @ ''/'') = None"
proof (cases "matchRe p (t @ ''/'')")
  case (Some caps)
  then obtain w rest where w: "w \<noteq> []" "\<forall>x\<in>set w. notSlashSpace x"
    "rest = [] \<or> rest = ''.git''" "suffix (w @ rest) (t @ ''/'')"
    using url_pattern_Some[OF assms Some] by blast
  obtain z where z: "t @ ''/'' = z @ w @ rest" using w(4) by (auto simp: suffix_def)
  have "last (t @ ''/'') = CHR ''/''" by simp
  moreover have "last (z @ w @ rest) \<noteq> CHR ''/''"
  proof (cases "rest = []")
    case True
    then have "last (z @ w @ rest) = last w" using w(1) by simp
    moreover have "notSlashSpace (last w)" using w(1,2) by simp
    ultimately show ?thesis by (auto simp: notSlashSpace_def)
  next
    case False
    then have "rest = ''.git''" using w(3) by simp
    then show ?thesis by simp
  qed
  ultimately show ?thesis using z by simp
qed simp

lemma parse_slash: "parseRemoteUrl (u @ ''/'') = None"
  by (simp add: parseRemoteUrl_def trim_slash url_pattern_slash isUrlPattern_all)

lemma parse_trim: "trim a = trim b \<Longrightarrow> parseRemoteUrl a = parseRemoteUrl b"
  by (simp add: parseRemoteUrl_def)

text \<open>
  C5, as the code has it. A trailing slash is not tolerated: the repository group cannot
  hold a slash and the pattern is anchored at the end, so the URL with a slash appended
  does not parse at all.
\<close>

theorem parseRemoteUrl_trailing_slash_counterexample:
  "parseRemoteUrl ''https://github.com/user/repo.git''
     = Some \<lparr>provider = GitHub, host = ''github.com'', owner = ''user'', repo = ''repo''\<rparr>
   \<and> parseRemoteUrl ''https://github.com/user/repo.git/'' = None"
  by code_simp

text \<open>
  C5, amended: for every input \<open>u\<close>, adding spaces before and after it, or appending one
  newline, does not change the result of \<open>parseRemoteUrl\<close>; the input
  \<open>"  https://github.com/user/repo.git  "\<close> parses to github, \<open>github.com\<close>, \<open>user\<close>, \<open>repo\<close>;
  and an input with a slash appended never parses.
\<close>

theorem parseRemoteUrl_whitespace:
  "parseRemoteUrl (replicate m CHR '' '' @ u @ replicate n CHR '' '') = parseRemoteUrl u
   \<and> parseRemoteUrl (u @ [CHR 0x0A]) = parseRemoteUrl u
   \<and> parseRemoteUrl ''  https://github.com/user/repo.git  ''
       = Some \<lparr>provider = GitHub, host = ''github.com'', owner = ''user'', repo = ''repo''\<rparr>
   \<and> parseRemoteUrl (u @ ''/'') = None"
proof -
  have sp: "isWhiteSpace CHR '' ''" "isWhiteSpace (CHR 0x0A)" by (simp_all add: isWhiteSpace_def)
  have "trim (replicate m CHR '' '' @ u @ replicate n CHR '' '') = trim (u @ replicate n CHR '' '')"
    by (rule trim_left) (simp add: sp)
  also have "\<dots> = trim u"
    by (rule trim_right) (simp add: sp)
  finally have a: "parseRemoteUrl (replicate m CHR '' '' @ u @ replicate n CHR '' '') = parseRemoteUrl u"
    by (rule parse_trim)
  have "trim (u @ [CHR 0x0A]) = trim u"
    by (rule trim_right) (simp add: sp)
  then have b: "parseRemoteUrl (u @ [CHR 0x0A]) = parseRemoteUrl u"
    by (rule parse_trim)
  have c: "parseRemoteUrl ''  https://github.com/user/repo.git  ''
       = Some \<lparr>provider = GitHub, host = ''github.com'', owner = ''user'', repo = ''repo''\<rparr>"
    by code_simp
  show ?thesis using a b c parse_slash by blast
qed

theorem parseRemoteUrl_whitespace_witness:
  "parseRemoteUrl (replicate 3 CHR '' '' @ ''git@github.com:user/repo.git'' @ replicate 1 CHR '' '')
     = Some \<lparr>provider = GitHub, host = ''github.com'', owner = ''user'', repo = ''repo''\<rparr>
   \<and> parseRemoteUrl (''git@github.com:user/repo.git'' @ [CHR 0x0A])
     = Some \<lparr>provider = GitHub, host = ''github.com'', owner = ''user'', repo = ''repo''\<rparr>
   \<and> parseRemoteUrl (''git@github.com:user/repo.git'' @ ''/'') = None"
proof -
  have e: "parseRemoteUrl ''git@github.com:user/repo.git''
       = Some \<lparr>provider = GitHub, host = ''github.com'', owner = ''user'', repo = ''repo''\<rparr>"
    by code_simp
  show ?thesis
    using parseRemoteUrl_whitespace[of 3 "''git@github.com:user/repo.git''" 1] e
    by presburger
qed

section \<open>Nested owner paths\<close>

lemma trim_id:
  assumes "s \<noteq> []" "\<not> isWhiteSpace (hd s)" "\<not> isWhiteSpace (last s)"
  shows "trim s = s"
proof -
  have a: "dropWhile isWhiteSpace s = s" using assms(1,2) by (cases s) auto
  have "rev s \<noteq> []" "\<not> isWhiteSpace (hd (rev s))" using assms(1,3) by (simp_all add: hd_rev)
  then have "dropWhile isWhiteSpace (rev s) = rev s" by (cases "rev s") auto
  then show ?thesis by (simp add: trim_def a)
qed

lemma joinSlash_Cons: "gs \<noteq> [] \<Longrightarrow> joinSlash (g # gs) = g @ ''/'' @ joinSlash gs"
  by (cases gs) simp_all

lemma joinSlash_nonempty: "segs \<noteq> [] \<Longrightarrow> \<forall>g\<in>set segs. g \<noteq> [] \<Longrightarrow> joinSlash segs \<noteq> []"
  by (cases segs; cases "tl segs") auto

lemma anyChar_slash: "anyChar CHR ''/''"
  by (simp add: anyChar_def isLineTerminator_def)

lemma joinSlash_anyChar:
  "\<forall>g\<in>set segs. \<forall>x\<in>set g. anyChar x \<Longrightarrow> \<forall>x\<in>set (joinSlash segs). anyChar x"
proof (induction segs)
  case Nil
  then show ?case by simp
next
  case (Cons g gs)
  show ?case
  proof (cases "gs = []")
    case True
    then show ?thesis using Cons.prems by simp
  next
    case False
    have "\<forall>x\<in>set (joinSlash gs). anyChar x" using Cons by simp
    then show ?thesis using Cons.prems False anyChar_slash by (auto simp: joinSlash_Cons)
  qed
qed


lemma slash_repoTail_None:
  assumes "CHR ''/'' \<in> set t"
  shows "matchHere repoTail t = None"
proof (cases "matchHere repoTail t")
  case (Some caps)
  obtain w rest where w: "t = w @ rest" "\<forall>x\<in>set w. notSlashSpace x" "rest = [] \<or> rest = ''.git''"
    using repoTail_Some[OF Some] by blast
  have "CHR ''/'' \<notin> set w" using w(2) by (auto simp: notSlashSpace_def)
  moreover have "CHR ''/'' \<notin> set rest" using w(3) by auto
  ultimately have "CHR ''/'' \<notin> set t" using w(1) by simp
  then show ?thesis using assms by simp
qed simp

lemma pathTail_match:
  assumes "path \<noteq> []" "\<forall>x\<in>set path. anyChar x" "nm \<noteq> []" "\<forall>x\<in>set nm. notSlashSpace x"
    and "sfx = ''.git'' \<or> (sfx = [] \<and> \<not> suffix ''.git'' nm)"
  shows "matchHere pathTail (path @ ''/'' @ nm @ sfx) = Some [path, nm]"
proof -
  let ?k = "\<lambda>w rest. map_option ((#) w) (matchHere (Lit ''/'' # repoTail) rest)"
  have "plusLazy anyChar ?k (path @ (''/'' @ nm @ sfx)) [] = Some [path, nm]"
  proof (rule plusLazy_first)
    show "?k ([] @ path) (''/'' @ nm @ sfx) = Some [path, nm]"
      using repoTail_match[OF assms(3,4,5)] by simp
    show "\<forall>j. 0 < j \<and> j < length path \<longrightarrow>
            ?k ([] @ take j path) (drop j path @ ''/'' @ nm @ sfx) = None"
    proof (intro allI impI)
      fix j assume j: "0 < j \<and> j < length path"
      then obtain y ys where d: "drop j path = y # ys" by (cases "drop j path") auto
      have "matchHere repoTail (ys @ ''/'' @ nm @ sfx) = None"
        by (rule slash_repoTail_None) simp
      then show "?k ([] @ take j path) (drop j path @ ''/'' @ nm @ sfx) = None"
        by (auto simp: d)
    qed
  qed (use assms in simp_all)
  then show ?thesis by (simp add: pathTail_def)
qed

lemma greedy_host_match:
  assumes "h \<noteq> []" "\<forall>x\<in>set h. c x" "\<not> c d" "matchHere q (d # t) = Some caps"
  shows "matchHere (CapGreedy c # q) (h @ d # t) = Some (h # caps)"
proof -
  let ?k = "\<lambda>w rest. map_option ((#) w) (matchHere q rest)"
  have "plusGreedy c ?k (h @ d # t) [] = Some (h # caps)"
    by (rule plusGreedy_maximal) (use assms in simp_all)
  then show ?thesis by simp
qed

lemma host_path_match:
  assumes "h \<noteq> []" "\<forall>x\<in>set h. c x" "\<not> c d"
    "path \<noteq> []" "\<forall>x\<in>set path. anyChar x" "nm \<noteq> []" "\<forall>x\<in>set nm. notSlashSpace x"
    "sfx = ''.git'' \<or> (sfx = [] \<and> \<not> suffix ''.git'' nm)"
  shows "matchHere (CapGreedy c # Lit [d] # pathTail) (h @ [d] @ path @ ''/'' @ nm @ sfx)
           = Some [h, path, nm]"
proof -
  have "matchHere (Lit [d] # pathTail) (d # path @ ''/'' @ nm @ sfx) = Some [path, nm]"
    using pathTail_match[OF assms(4-8)] by simp
  from greedy_host_match[OF assms(1-3) this] show ?thesis by simp
qed

lemma generic_patterns:
  "httpsRe = Lit ''http'' # OptLit ''s'' # Lit ''://'' # CapGreedy notSlash # Lit ''/'' # pathTail"
  "sshRe = Lit ''git@'' # CapGreedy notColon # Lit '':'' # pathTail"
  "sshUrlRe = Lit ''ssh://git@'' # CapGreedy notSlash # Lit ''/'' # pathTail"
  by (simp_all add: httpsRe_def sshRe_def sshUrlRe_def pathTail_def repoTail_def)

lemma httpsRe_match:
  assumes "h \<noteq> []" "\<forall>x\<in>set h. notSlash x"
    "path \<noteq> []" "\<forall>x\<in>set path. anyChar x" "nm \<noteq> []" "\<forall>x\<in>set nm. notSlashSpace x"
    "sfx = ''.git'' \<or> (sfx = [] \<and> \<not> suffix ''.git'' nm)"
  shows "matchHere httpsRe (''http'' @ (if secure then ''s'' else []) @ ''://'' @ h @ ''/'' @ path @ ''/'' @ nm @ sfx)
           = Some [h, path, nm]"
proof -
  have m: "matchHere (CapGreedy notSlash # Lit ''/'' # pathTail) (h @ ''/'' @ path @ ''/'' @ nm @ sfx)
           = Some [h, path, nm]"
    by (rule host_path_match) (use assms in \<open>simp_all add: notSlash_def\<close>)
  show ?thesis
  proof (cases secure)
    case True
    then show ?thesis using m by (simp add: generic_patterns)
  next
    case False
    then show ?thesis using m by (simp add: generic_patterns)
  qed
qed

lemma sshRe_match:
  assumes "h \<noteq> []" "\<forall>x\<in>set h. notColon x"
    "path \<noteq> []" "\<forall>x\<in>set path. anyChar x" "nm \<noteq> []" "\<forall>x\<in>set nm. notSlashSpace x"
    "sfx = ''.git'' \<or> (sfx = [] \<and> \<not> suffix ''.git'' nm)"
  shows "matchHere sshRe (''git@'' @ h @ '':'' @ path @ ''/'' @ nm @ sfx) = Some [h, path, nm]"
proof -
  have m: "matchHere (CapGreedy notColon # Lit '':'' # pathTail) (h @ '':'' @ path @ ''/'' @ nm @ sfx)
           = Some [h, path, nm]"
    by (rule host_path_match) (use assms in \<open>simp_all add: notColon_def\<close>)
  then show ?thesis by (simp add: generic_patterns)
qed

lemma sshUrlRe_match:
  assumes "h \<noteq> []" "\<forall>x\<in>set h. notSlash x"
    "path \<noteq> []" "\<forall>x\<in>set path. anyChar x" "nm \<noteq> []" "\<forall>x\<in>set nm. notSlashSpace x"
    "sfx = ''.git'' \<or> (sfx = [] \<and> \<not> suffix ''.git'' nm)"
  shows "matchHere sshUrlRe (''ssh://git@'' @ h @ ''/'' @ path @ ''/'' @ nm @ sfx) = Some [h, path, nm]"
proof -
  have m: "matchHere (CapGreedy notSlash # Lit ''/'' # pathTail) (h @ ''/'' @ path @ ''/'' @ nm @ sfx)
           = Some [h, path, nm]"
    by (rule host_path_match) (use assms in \<open>simp_all add: notSlash_def\<close>)
  then show ?thesis by (simp add: generic_patterns)
qed


lemma parse_generic:
  assumes "trim u = u"
  shows "matchRe azureHttpsRe u = None \<Longrightarrow> matchRe azureSshRe u = None
     \<Longrightarrow> matchRe httpsRe u = Some [a, b, c]
     \<Longrightarrow> parseRemoteUrl u = Some \<lparr>provider = detectProvider u, host = a, owner = b, repo = c\<rparr>"
   "matchRe azureHttpsRe u = None \<Longrightarrow> matchRe azureSshRe u = None
     \<Longrightarrow> matchRe httpsRe u = None \<Longrightarrow> matchRe sshRe u = Some [a, b, c]
     \<Longrightarrow> parseRemoteUrl u = Some \<lparr>provider = detectProvider u, host = a, owner = b, repo = c\<rparr>"
   "matchRe azureHttpsRe u = None \<Longrightarrow> matchRe azureSshRe u = None
     \<Longrightarrow> matchRe httpsRe u = None \<Longrightarrow> matchRe sshRe u = None
     \<Longrightarrow> matchRe sshUrlRe u = Some [a, b, c]
     \<Longrightarrow> parseRemoteUrl u = Some \<lparr>provider = detectProvider u, host = a, owner = b, repo = c\<rparr>"
  using assms by (simp_all add: parseRemoteUrl_def)

lemma url_trim:
  assumes "nm \<noteq> []" "\<forall>x\<in>set nm. notSlashSpace x" "sfx = ''.git'' \<or> sfx = []"
    "\<not> isWhiteSpace c"
  shows "trim (c # pre @ nm @ sfx) = c # pre @ nm @ sfx"
proof (rule trim_id)
  have "last (c # pre @ nm @ sfx) = (if sfx = [] then last nm else CHR ''t'')"
    using assms(1,3) by auto
  moreover have "\<not> isWhiteSpace (last nm)" using assms(1,2) by (simp add: notSlashSpace_def)
  moreover have "\<not> isWhiteSpace CHR ''t''" by (simp add: isWhiteSpace_def)
  ultimately show "\<not> isWhiteSpace (last (c # pre @ nm @ sfx))" by simp
qed (use assms(4) in simp_all)

text \<open>
  Where the generic patterns are reached, nesting depth does not matter. Take an HTTPS,
  SCP-style or \<open>ssh://\<close> URL built from a non-empty host, \<open>k \<ge> 1\<close> non-empty owner segments
  without line terminators, and a final segment that is a non-empty repository name
  without slash or whitespace, followed or not by \<open>.git\<close> (when no \<open>.git\<close> follows, the
  name itself does not end in \<open>.git\<close>). If no earlier pattern of the cascade matches the
  URL, then \<open>parseRemoteUrl\<close> gives that host, the owner equal to the slash-joined
  segments, whatever their number, and the repo equal to the repository name. The
  hypothesis on the earlier patterns is not idle for \<open>ssh://\<close> URLs: see the last theorem
  of this section.
\<close>

lemma nested_owner_when_reached:
  assumes "h \<noteq> []" "segs \<noteq> []" "\<forall>g\<in>set segs. g \<noteq> [] \<and> (\<forall>x\<in>set g. anyChar x)"
    "nm \<noteq> []" "\<forall>x\<in>set nm. notSlashSpace x"
    "sfx = ''.git'' \<or> (sfx = [] \<and> \<not> suffix ''.git'' nm)"
  shows
    "((\<forall>x\<in>set h. notSlash x)
       \<and> matchRe azureHttpsRe (httpsUrl secure h segs (nm @ sfx)) = None
       \<and> matchRe azureSshRe (httpsUrl secure h segs (nm @ sfx)) = None
      \<longrightarrow> parseRemoteUrl (httpsUrl secure h segs (nm @ sfx))
           = Some \<lparr>provider = detectProvider (httpsUrl secure h segs (nm @ sfx)),
                   host = h, owner = joinSlash segs, repo = nm\<rparr>)
   \<and> ((\<forall>x\<in>set h. notColon x)
       \<and> matchRe azureHttpsRe (scpUrl h segs (nm @ sfx)) = None
       \<and> matchRe azureSshRe (scpUrl h segs (nm @ sfx)) = None
       \<and> matchRe httpsRe (scpUrl h segs (nm @ sfx)) = None
      \<longrightarrow> parseRemoteUrl (scpUrl h segs (nm @ sfx))
           = Some \<lparr>provider = detectProvider (scpUrl h segs (nm @ sfx)),
                   host = h, owner = joinSlash segs, repo = nm\<rparr>)
   \<and> ((\<forall>x\<in>set h. notSlash x)
       \<and> matchRe azureHttpsRe (sshUrl h segs (nm @ sfx)) = None
       \<and> matchRe azureSshRe (sshUrl h segs (nm @ sfx)) = None
       \<and> matchRe httpsRe (sshUrl h segs (nm @ sfx)) = None
       \<and> matchRe sshRe (sshUrl h segs (nm @ sfx)) = None
      \<longrightarrow> parseRemoteUrl (sshUrl h segs (nm @ sfx))
           = Some \<lparr>provider = detectProvider (sshUrl h segs (nm @ sfx)),
                   host = h, owner = joinSlash segs, repo = nm\<rparr>)"
proof -
  let ?path = "joinSlash segs"
  have pne: "?path \<noteq> []" using assms(2,3) by (simp add: joinSlash_nonempty)
  have pany: "\<forall>x\<in>set ?path. anyChar x" by (rule joinSlash_anyChar) (use assms(3) in simp)
  have sf: "sfx = ''.git'' \<or> sfx = []" using assms(6) by auto
  have t1: "trim (httpsUrl secure h segs (nm @ sfx)) = httpsUrl secure h segs (nm @ sfx)"
    using url_trim[OF assms(4,5) sf, of "CHR ''h''"
        "''ttp'' @ (if secure then ''s'' else []) @ ''://'' @ h @ ''/'' @ ?path @ ''/''"]
    by (simp add: httpsUrl_def isWhiteSpace_def)
  have t2: "trim (scpUrl h segs (nm @ sfx)) = scpUrl h segs (nm @ sfx)"
    using url_trim[OF assms(4,5) sf, of "CHR ''g''" "''it@'' @ h @ '':'' @ ?path @ ''/''"]
    by (simp add: scpUrl_def isWhiteSpace_def)
  have t3: "trim (sshUrl h segs (nm @ sfx)) = sshUrl h segs (nm @ sfx)"
    using url_trim[OF assms(4,5) sf, of "CHR ''s''" "''sh://git@'' @ h @ ''/'' @ ?path @ ''/''"]
    by (simp add: sshUrl_def isWhiteSpace_def)
  have m1: "matchRe httpsRe (httpsUrl secure h segs (nm @ sfx)) = Some [h, ?path, nm]"
    if "\<forall>x\<in>set h. notSlash x"
    unfolding httpsUrl_def
    by (rule matchRe_here, rule httpsRe_match) (use assms that pne pany in simp_all)
  have m2: "matchRe sshRe (scpUrl h segs (nm @ sfx)) = Some [h, ?path, nm]"
    if "\<forall>x\<in>set h. notColon x"
    unfolding scpUrl_def
    by (rule matchRe_here, rule sshRe_match) (use assms that pne pany in simp_all)
  have m3: "matchRe sshUrlRe (sshUrl h segs (nm @ sfx)) = Some [h, ?path, nm]"
    if "\<forall>x\<in>set h. notSlash x"
    unfolding sshUrl_def
    by (rule matchRe_here, rule sshUrlRe_match) (use assms that pne pany in simp_all)
  show ?thesis
    using parse_generic(1)[OF t1 _ _ m1] parse_generic(2)[OF t2 _ _ _ m2]
      parse_generic(3)[OF t3 _ _ _ _ m3]
    by blast
qed


lemma nested_owner_examples:
  "matchRe azureHttpsRe ''https://gitlab.com/a/b/c/repo.git'' = None
   \<and> matchRe azureSshRe ''https://gitlab.com/a/b/c/repo.git'' = None
   \<and> parseRemoteUrl ''https://gitlab.com/a/b/c/repo.git''
     = Some \<lparr>provider = GitLab, host = ''gitlab.com'', owner = ''a/b/c'', repo = ''repo''\<rparr>
   \<and> matchRe azureHttpsRe ''git@gitlab.com:group/subgroup/repo.git'' = None
   \<and> matchRe azureSshRe ''git@gitlab.com:group/subgroup/repo.git'' = None
   \<and> matchRe httpsRe ''git@gitlab.com:group/subgroup/repo.git'' = None
   \<and> parseRemoteUrl ''git@gitlab.com:group/subgroup/repo.git''
     = Some \<lparr>provider = GitLab, host = ''gitlab.com'', owner = ''group/subgroup'',
             repo = ''repo''\<rparr>
   \<and> matchRe azureHttpsRe ''ssh://git@gitlab.com/group/repo'' = None
   \<and> matchRe azureSshRe ''ssh://git@gitlab.com/group/repo'' = None
   \<and> matchRe httpsRe ''ssh://git@gitlab.com/group/repo'' = None
   \<and> matchRe sshRe ''ssh://git@gitlab.com/group/repo'' = None
   \<and> parseRemoteUrl ''ssh://git@gitlab.com/group/repo''
     = Some \<lparr>provider = GitLab, host = ''gitlab.com'', owner = ''group'', repo = ''repo''\<rparr>"
proof -
  have cls: "\<And>x. anyChar x = (x \<noteq> CHR 0x0A \<and> x \<noteq> CHR 0x0D)"
    "\<And>x. notSlashSpace x = (x \<noteq> CHR ''/'' \<and> \<not> isWhiteSpace x)"
    by (simp_all add: anyChar_def isLineTerminator_def notSlashSpace_def)
  have u: "httpsUrl True ''gitlab.com'' [''a'', ''b'', ''c''] (''repo'' @ ''.git'')
             = ''https://gitlab.com/a/b/c/repo.git''"
    "scpUrl ''gitlab.com'' [''group'', ''subgroup''] (''repo'' @ ''.git'')
             = ''git@gitlab.com:group/subgroup/repo.git''"
    "sshUrl ''gitlab.com'' [''group''] (''repo'' @ []) = ''ssh://git@gitlab.com/group/repo''"
    "joinSlash [''a'', ''b'', ''c''] = ''a/b/c''"
    "joinSlash [''group'', ''subgroup''] = ''group/subgroup''"
    "joinSlash [''group''] = ''group''"
    by (simp_all add: httpsUrl_def scpUrl_def sshUrl_def)
  have n: "matchRe azureHttpsRe ''https://gitlab.com/a/b/c/repo.git'' = None"
    "matchRe azureSshRe ''https://gitlab.com/a/b/c/repo.git'' = None"
    "matchRe azureHttpsRe ''git@gitlab.com:group/subgroup/repo.git'' = None"
    "matchRe azureSshRe ''git@gitlab.com:group/subgroup/repo.git'' = None"
    "matchRe httpsRe ''git@gitlab.com:group/subgroup/repo.git'' = None"
    "matchRe azureHttpsRe ''ssh://git@gitlab.com/group/repo'' = None"
    "matchRe azureSshRe ''ssh://git@gitlab.com/group/repo'' = None"
    "matchRe httpsRe ''ssh://git@gitlab.com/group/repo'' = None"
    "matchRe sshRe ''ssh://git@gitlab.com/group/repo'' = None"
    by code_simp+
  have d: "detectProvider ''https://gitlab.com/a/b/c/repo.git'' = GitLab"
    "detectProvider ''git@gitlab.com:group/subgroup/repo.git'' = GitLab"
    "detectProvider ''ssh://git@gitlab.com/group/repo'' = GitLab"
    by code_simp+
  have s: "\<not> suffix ''.git'' ''repo''" by code_simp
  have h: "\<forall>x\<in>set ''gitlab.com''. notSlash x" "\<forall>x\<in>set ''gitlab.com''. notColon x"
    by (simp_all add: notSlash_def notColon_def)
  have a: "parseRemoteUrl ''https://gitlab.com/a/b/c/repo.git''
     = Some \<lparr>provider = GitLab, host = ''gitlab.com'', owner = ''a/b/c'', repo = ''repo''\<rparr>"
    using nested_owner_when_reached[of "''gitlab.com''" "[''a'', ''b'', ''c'']" "''repo''" "''.git''" True]
      n h d unfolding u by (simp add: cls isWhiteSpace_def)
  have b: "parseRemoteUrl ''git@gitlab.com:group/subgroup/repo.git''
     = Some \<lparr>provider = GitLab, host = ''gitlab.com'', owner = ''group/subgroup'',
             repo = ''repo''\<rparr>"
    using nested_owner_when_reached[of "''gitlab.com''" "[''group'', ''subgroup'']" "''repo''" "''.git''" True]
      n h d unfolding u by (simp add: cls isWhiteSpace_def)
  have c: "parseRemoteUrl ''ssh://git@gitlab.com/group/repo''
     = Some \<lparr>provider = GitLab, host = ''gitlab.com'', owner = ''group'', repo = ''repo''\<rparr>"
    using nested_owner_when_reached[of "''gitlab.com''" "[''group'']" "''repo''" "[]" True]
      n h d s unfolding u by (simp add: cls isWhiteSpace_def)
  show ?thesis using n a b c by blast
qed

text \<open>
  C2. The claim: every generic HTTPS, SCP-style or \<open>ssh://\<close> URL with \<open>k \<ge> 1\<close> owner
  segments and a final repository segment parses with the owner equal to the joined
  segments and the repo equal to the final segment. The code breaks it for an \<open>ssh://\<close>
  URL whose host carries a port. The URL below has the host \<open>gitea.example.com:2222\<close>, the
  single owner segment \<open>team\<close> and the final segment \<open>repo.git\<close>. The SCP-style pattern is
  not anchored at the start and is tried before the \<open>ssh://\<close> pattern; it matches from
  \<open>git@\<close> on and takes the colon before the port for its separator, so the result has
  the owner \<open>2222/team\<close> and the host without its port. The \<open>ssh://\<close> pattern, which the
  source wrote for this form, gives the host with its port and the owner \<open>team\<close> when it
  is run on the same URL, and so does the HTTPS branch on the HTTPS URL with the same
  host and path.
\<close>

theorem parseRemoteUrl_ssh_port:
  "sshUrl ''gitea.example.com:2222'' [''team''] (''repo'' @ ''.git'')
     = ''ssh://git@gitea.example.com:2222/team/repo.git''
   \<and> parseRemoteUrl ''ssh://git@gitea.example.com:2222/team/repo.git''
     = Some \<lparr>provider = Gitea, host = ''gitea.example.com'', owner = ''2222/team'',
             repo = ''repo''\<rparr>
   \<and> matchRe sshRe ''ssh://git@gitea.example.com:2222/team/repo.git''
     = Some [''gitea.example.com'', ''2222/team'', ''repo'']
   \<and> matchRe sshUrlRe ''ssh://git@gitea.example.com:2222/team/repo.git''
     = Some [''gitea.example.com:2222'', ''team'', ''repo'']
   \<and> parseRemoteUrl ''https://gitea.example.com:2222/team/repo.git''
     = Some \<lparr>provider = Gitea, host = ''gitea.example.com:2222'', owner = ''team'',
             repo = ''repo''\<rparr>"
  by code_simp

end
